theory Spec2Isabelle
  imports Complex_Main
begin

section \<open>Machine integers\<close>

text \<open>
  The kernels and both \<open>main\<close> functions compute with C \<open>int\<close> (32-bit, signed) and with
  \<open>unsigned\<close> (32-bit): \<open>TILE_WIDTH\<close> is a \<open>const unsigned\<close>, and the fields of
  \<open>blockIdx\<close>, \<open>blockDim\<close> and \<open>threadIdx\<close> are unsigned. A signed value is
  modelled as an \<open>int\<close>, an unsigned one as a \<open>nat\<close>. Wherever the source mixes the two,
  the usual arithmetic conversions turn the signed operand into an unsigned one
  (\<open>to_unsigned\<close>), the arithmetic is done modulo \<open>2 ^ 32\<close> (\<open>unsigned_wrap\<close>), and an
  assignment to an \<open>int\<close> variable converts back (\<open>to_int\<close>, two's complement). Purely
  signed arithmetic (the buffer indices) is modelled on \<open>int\<close> without wrap-around: its
  overflow is undefined behaviour in C++ and needs a matrix of more than \<open>2 ^ 31\<close>
  elements, whose byte size \<open>main\<close> cannot hold in its \<open>int sizeA\<close>.
\<close>

definition to_unsigned :: "int \<Rightarrow> nat" where
  "to_unsigned i = nat (i mod 2 ^ 32)"

definition unsigned_wrap :: "nat \<Rightarrow> nat" where
  "unsigned_wrap u = u mod 2 ^ 32"

definition to_int :: "nat \<Rightarrow> int" where
  "to_int u =
     (if u mod 2 ^ 32 < 2 ^ 31 then int (u mod 2 ^ 32) else int (u mod 2 ^ 32) - 2 ^ 32)"

definition TILE_WIDTH :: nat where
  "TILE_WIDTH = 16"

text \<open>
  The expression \<open>(n - 1) / TILE_WIDTH + 1\<close> with \<open>int n\<close>: the subtraction is signed, the
  division and the addition are unsigned. It is the grid extent of both \<open>main\<close> functions
  and the bound of the tile loop of the tiled kernel.
\<close>

definition tile_count :: "int \<Rightarrow> nat" where
  "tile_count n = unsigned_wrap (to_unsigned (n - 1) div TILE_WIDTH + 1)"

section \<open>Launch geometry\<close>

text \<open>CUDA's \<open>dim3\<close>, built as \<open>dim3 dimGrid(x, y, z)\<close>.\<close>

datatype dim3 = Dim3 (dim_x: nat) (dim_y: nat) (dim_z: nat)

text \<open>SimpleMatrixMultiplication.cpp, lines 89 and 90.\<close>

definition simple_dimGrid :: "int \<Rightarrow> int \<Rightarrow> dim3" where
  "simple_dimGrid numCRows numCColumns =
     Dim3 (tile_count numCRows) (tile_count numCColumns) 1"

text \<open>TiledMatrixMultiplication.cpp, lines 132 and 133: the columns go along \<open>x\<close>.\<close>

definition tiled_dimGrid :: "int \<Rightarrow> int \<Rightarrow> dim3" where
  "tiled_dimGrid numCRows numCColumns =
     Dim3 (tile_count numCColumns) (tile_count numCRows) 1"

definition dimBlock :: dim3 where
  "dimBlock = Dim3 TILE_WIDTH TILE_WIDTH 1"

text \<open>
  The index \<open>blockIdx.x * blockDim.x + threadIdx.x\<close> (unsigned arithmetic) stored in an
  \<open>int\<close>.
\<close>

definition global_index :: "nat \<Rightarrow> nat \<Rightarrow> nat \<Rightarrow> int" where
  "global_index bIdx bDim tIdx = to_int (unsigned_wrap (unsigned_wrap (bIdx * bDim) + tIdx))"

text \<open>All indices below an extent: the blocks of a grid, the threads of a block.\<close>

definition indices :: "dim3 \<Rightarrow> dim3 list" where
  "indices ext =
     concat (map (\<lambda>k. concat (map (\<lambda>j. map (\<lambda>i. Dim3 i j k)
       [0..<dim_x ext]) [0..<dim_y ext])) [0..<dim_z ext])"

section \<open>Device memory\<close>

text \<open>
  A device buffer is a list; the kernels index it with an \<open>int\<close>. An access outside the
  buffer has no defined result in the source; the model makes it a fault that names the
  buffer and the index. The parameters of the kernels are collected in a record.
\<close>

datatype buffer = BufA | BufB | BufC

datatype error = IllegalAddress buffer int

datatype access = Read buffer int | Write buffer int

record kernel_dims =
  numARows :: int
  numAColumns :: int
  numBRows :: int
  numBColumns :: int
  numCRows :: int
  numCColumns :: int

definition load :: "buffer \<Rightarrow> 'a list \<Rightarrow> int \<Rightarrow> error + 'a" where
  "load b buf i =
     (if 0 \<le> i \<and> i < int (length buf) then Inr (buf ! nat i) else Inl (IllegalAddress b i))"

definition store :: "buffer \<Rightarrow> 'a list \<Rightarrow> int \<Rightarrow> 'a \<Rightarrow> error + 'a list" where
  "store b buf i v =
     (if 0 \<le> i \<and> i < int (length buf) then Inr (buf[nat i := v])
      else Inl (IllegalAddress b i))"

text \<open>Work items run one after the other; the first fault ends the run.\<close>

fun fold_err :: "('b \<Rightarrow> 's \<Rightarrow> error + 's) \<Rightarrow> 'b list \<Rightarrow> 's \<Rightarrow> error + 's" where
  "fold_err f [] s = Inr s"
| "fold_err f (w # ws) s = (case f w s of Inl e \<Rightarrow> Inl e | Inr s' \<Rightarrow> fold_err f ws s')"

section \<open>The naive kernel\<close>

text \<open>
  SimpleMatrixMultiplication.cpp, lines 28 and 29: the loop over \<open>i\<close>, with the
  accumulator \<open>Cvalue\<close> and the accesses made so far. Arithmetic on the matrix entries is
  that of a semiring (exact); rounding is not modelled.
\<close>

function simple_loop ::
  "'a::semiring_0 list \<Rightarrow> 'a list \<Rightarrow> kernel_dims \<Rightarrow> int \<Rightarrow> int \<Rightarrow> int \<Rightarrow> 'a \<Rightarrow> access list
     \<Rightarrow> error + ('a \<times> access list)" where
  "simple_loop A B d Row Col i Cvalue tr =
     (if i < numAColumns d then
        (case load BufA A (Row * numAColumns d + i) of
           Inl e \<Rightarrow> Inl e
         | Inr a \<Rightarrow>
             (case load BufB B (Col + i * numBColumns d) of
                Inl e \<Rightarrow> Inl e
              | Inr b \<Rightarrow>
                  simple_loop A B d Row Col (i + 1) (Cvalue + a * b)
                    (tr @ [Read BufA (Row * numAColumns d + i),
                           Read BufB (Col + i * numBColumns d)])))
      else Inr (Cvalue, tr))"
  by pat_completeness auto
termination
  by (relation "measure (\<lambda>(A, B, d, Row, Col, i, Cvalue, tr). nat (numAColumns d - i))") auto

text \<open>
  SimpleMatrixMultiplication.cpp, lines 23 to 31: one thread. The result is the buffer
  \<open>C\<close> after the thread and the list of the global memory accesses the thread made.
\<close>

definition simple_matrixMultiply ::
  "'a::semiring_0 list \<Rightarrow> 'a list \<Rightarrow> 'a list \<Rightarrow> kernel_dims \<Rightarrow> dim3 \<Rightarrow> dim3 \<Rightarrow> dim3
     \<Rightarrow> error + ('a list \<times> access list)" where
  "simple_matrixMultiply A B C d blockIdx blockDim threadIdx =
     (let Row = global_index (dim_x blockIdx) (dim_x blockDim) (dim_x threadIdx);
          Col = global_index (dim_y blockIdx) (dim_y blockDim) (dim_y threadIdx)
      in if Row < numCRows d \<and> Col < numCColumns d then
           (case simple_loop A B d Row Col 0 0 [] of
              Inl e \<Rightarrow> Inl e
            | Inr (Cvalue, tr) \<Rightarrow>
                (case store BufC C (Row * numCColumns d + Col) Cvalue of
                   Inl e \<Rightarrow> Inl e
                 | Inr C' \<Rightarrow> Inr (C', tr @ [Write BufC (Row * numCColumns d + Col)])))
         else Inr (C, []))"

text \<open>
  The launch \<open>matrixMultiply<<<dimGrid, dimBlock>>>\<close>: every thread of every block runs
  the kernel. The threads of the naive kernel share nothing but the read-only operands and
  write distinct cells, so they are run in sequence.
\<close>

definition simple_thread_step ::
  "'a::semiring_0 list \<Rightarrow> 'a list \<Rightarrow> kernel_dims \<Rightarrow> dim3 \<Rightarrow> dim3 \<times> dim3 \<Rightarrow> 'a list
     \<Rightarrow> error + 'a list" where
  "simple_thread_step A B d blockDim bt C =
     (case simple_matrixMultiply A B C d (fst bt) blockDim (snd bt) of
        Inl e \<Rightarrow> Inl e
      | Inr (C', tr) \<Rightarrow> Inr C')"

definition simple_launch ::
  "dim3 \<Rightarrow> dim3 \<Rightarrow> 'a::semiring_0 list \<Rightarrow> 'a list \<Rightarrow> 'a list \<Rightarrow> kernel_dims
     \<Rightarrow> error + 'a list" where
  "simple_launch gridDim blockDim A B C d =
     fold_err (simple_thread_step A B d blockDim)
       (List.product (indices gridDim) (indices blockDim)) C"

text \<open>The launch of \<open>main\<close>, with its grid and block (lines 89 to 97).\<close>

definition simple_kernel ::
  "'a::semiring_0 list \<Rightarrow> 'a list \<Rightarrow> 'a list \<Rightarrow> kernel_dims \<Rightarrow> error + 'a list" where
  "simple_kernel A B C d =
     simple_launch (simple_dimGrid (numCRows d) (numCColumns d)) dimBlock A B C d"

section \<open>Valid inputs and the reference result\<close>

text \<open>
  What the kernels expect of their arguments: every dimension is a non-negative \<open>int\<close>,
  the shared dimension agrees, the output has the rows of \<open>A\<close> and the columns of \<open>B\<close>
  (lines 57 and 58 of \<open>main\<close>), and each buffer holds \<open>rows * columns\<close> entries.
\<close>

definition extent :: "int \<Rightarrow> bool" where
  "extent n \<longleftrightarrow> 0 \<le> n \<and> n < 2 ^ 31"

definition valid_matrices :: "'a list \<Rightarrow> 'a list \<Rightarrow> 'a list \<Rightarrow> kernel_dims \<Rightarrow> bool" where
  "valid_matrices A B C d \<longleftrightarrow>
     extent (numARows d) \<and> extent (numAColumns d) \<and> extent (numBColumns d) \<and>
     numAColumns d = numBRows d \<and> numCRows d = numARows d \<and> numCColumns d = numBColumns d \<and>
     int (length A) = numARows d * numAColumns d \<and>
     int (length B) = numBRows d * numBColumns d \<and>
     int (length C) = numCRows d * numCColumns d"

text \<open>
  The reference of the specification: row-major entries, \<open>index = row * numColumns + col\<close>,
  the sum over the shared dimension, and the triple loop over rows, columns and \<open>k\<close>.
\<close>

definition entry :: "'a list \<Rightarrow> nat \<Rightarrow> nat \<Rightarrow> nat \<Rightarrow> 'a" where
  "entry M numColumns row col = M ! (row * numColumns + col)"

definition reference_entry :: "'a::semiring_0 list \<Rightarrow> 'a list \<Rightarrow> nat \<Rightarrow> nat \<Rightarrow> nat \<Rightarrow> nat \<Rightarrow> 'a" where
  "reference_entry A B n numColumns row col =
     (\<Sum>k<n. entry A n row k * entry B numColumns k col)"

definition reference_multiply :: "'a::semiring_0 list \<Rightarrow> 'a list \<Rightarrow> nat \<Rightarrow> nat \<Rightarrow> nat \<Rightarrow> 'a list" where
  "reference_multiply A B numRows n numColumns =
     concat (map (\<lambda>row. map (\<lambda>col. reference_entry A B n numColumns row col) [0..<numColumns])
       [0..<numRows])"

text \<open>
  The zero-padding rule of the specification for the tiles: the element \<open>A[row, k]\<close> if both
  coordinates are in bounds, else zero; likewise \<open>B[k, col]\<close>.
\<close>

definition padded_A :: "'a::zero list \<Rightarrow> kernel_dims \<Rightarrow> nat \<Rightarrow> nat \<Rightarrow> 'a" where
  "padded_A A d row k =
     (if int row < numCRows d \<and> int k < numAColumns d
      then entry A (nat (numAColumns d)) row k else 0)"

definition padded_B :: "'a::zero list \<Rightarrow> kernel_dims \<Rightarrow> nat \<Rightarrow> nat \<Rightarrow> 'a" where
  "padded_B B d k col =
     (if int col < numCColumns d \<and> int k < numAColumns d
      then entry B (nat (numBColumns d)) k col else 0)"


section \<open>The tiled kernel\<close>

text \<open>
  The coordinate \<open>t * TILE_WIDTH + tx\<close> of the element a thread loads for tile \<open>t\<close>: \<open>t\<close> is
  an \<open>int\<close>, \<open>TILE_WIDTH\<close> is unsigned, so the arithmetic is unsigned and the result is
  converted back when it is stored in \<open>int A_x_coord\<close> (line 52) or \<open>int B_y_coord\<close>
  (line 58).
\<close>

definition tile_coord :: "int \<Rightarrow> nat \<Rightarrow> int" where
  "tile_coord t tIdx = to_int (unsigned_wrap (unsigned_wrap (to_unsigned t * TILE_WIDTH) + tIdx))"

text \<open>
  TiledMatrixMultiplication.cpp, lines 51 to 56: what a thread with row \<open>Row\<close> and
  \<open>threadIdx.x = tx\<close> stores in \<open>ds_A[ty][tx]\<close> for tile \<open>t\<close>; lines 58 to 63: what a thread
  with column \<open>Col\<close> and \<open>threadIdx.y = ty\<close> stores in \<open>ds_B[ty][tx]\<close>.
\<close>

definition load_A_element :: "'a::semiring_0 list \<Rightarrow> kernel_dims \<Rightarrow> int \<Rightarrow> int \<Rightarrow> nat \<Rightarrow> error + 'a" where
  "load_A_element A d Row t tx =
     (let n = numAColumns d;
          A_y_coord = Row;
          A_x_coord = tile_coord t tx
      in if A_y_coord < numCRows d \<and> A_x_coord < n
         then load BufA A (A_y_coord * n + A_x_coord)
         else Inr 0)"

definition load_B_element :: "'a::semiring_0 list \<Rightarrow> kernel_dims \<Rightarrow> int \<Rightarrow> int \<Rightarrow> nat \<Rightarrow> error + 'a" where
  "load_B_element B d Col t ty =
     (let n = numAColumns d;
          B_y_coord = tile_coord t ty;
          B_x_coord = Col
      in if B_x_coord < numCColumns d \<and> B_y_coord < n
         then load BufB B (B_y_coord * numCColumns d + B_x_coord)
         else Inr 0)"

text \<open>Both loads of one thread (lines 43, 44 and 51 to 63).\<close>

definition thread_loads ::
  "'a::semiring_0 list \<Rightarrow> 'a list \<Rightarrow> kernel_dims \<Rightarrow> dim3 \<Rightarrow> dim3 \<Rightarrow> int \<Rightarrow> dim3 \<Rightarrow> error + ('a \<times> 'a)" where
  "thread_loads A B d blockIdx blockDim t threadIdx =
     (let Col = global_index (dim_x blockIdx) (dim_x blockDim) (dim_x threadIdx);
          Row = global_index (dim_y blockIdx) (dim_y blockDim) (dim_y threadIdx)
      in case load_A_element A d Row t (dim_x threadIdx) of
           Inl e \<Rightarrow> Inl e
         | Inr a \<Rightarrow>
             (case load_B_element B d Col t (dim_y threadIdx) of
                Inl e \<Rightarrow> Inl e
              | Inr b \<Rightarrow> Inr (a, b)))"

text \<open>
  Lines 67 and 68: the loop over \<open>i\<close> that adds the products of one tile to \<open>Cvalue\<close>.
\<close>

function tile_product ::
  "(nat \<Rightarrow> nat \<Rightarrow> 'a::semiring_0) \<Rightarrow> (nat \<Rightarrow> nat \<Rightarrow> 'a) \<Rightarrow> nat \<Rightarrow> nat \<Rightarrow> nat \<Rightarrow> 'a \<Rightarrow> 'a" where
  "tile_product ds_A ds_B ty tx i Cvalue =
     (if i < TILE_WIDTH
      then tile_product ds_A ds_B ty tx (i + 1) (Cvalue + ds_A ty i * ds_B i tx)
      else Cvalue)"
  by pat_completeness auto
termination
  by (relation "measure (\<lambda>(ds_A, ds_B, ty, tx, i, Cvalue). TILE_WIDTH - i)") auto

text \<open>
  The threads of one block run in lock step between barriers. The state of a block holds
  the two tiles in shared memory, indexed \<open>[ty][tx]\<close>, the register \<open>Cvalue\<close> of every
  thread (\<open>Cvalues\<close>), and for every thread the list of what it has done: a store to its cell of
  \<open>ds_A\<close> or \<open>ds_B\<close> (with the value), a \<open>__syncthreads()\<close>, a write to \<open>C\<close> (with the
  index). Between two barriers a thread writes only its own cell or its own register, so a
  phase is given by what each thread of the block does in it.
\<close>

datatype 'a event = StoreA 'a | StoreB 'a | Sync | WriteC int

record 'a block_state =
  ds_A :: "nat \<Rightarrow> nat \<Rightarrow> 'a"
  ds_B :: "nat \<Rightarrow> nat \<Rightarrow> 'a"
  Cvalues :: "dim3 \<Rightarrow> 'a"
  events :: "dim3 \<Rightarrow> 'a event list"

definition in_block :: "dim3 \<Rightarrow> dim3 \<Rightarrow> bool" where
  "in_block blockDim threadIdx \<longleftrightarrow>
     dim_x threadIdx < dim_x blockDim \<and> dim_y threadIdx < dim_y blockDim \<and>
     dim_z threadIdx < dim_z blockDim"

fun first_fault :: "('b \<Rightarrow> error + 'c) \<Rightarrow> 'b list \<Rightarrow> error option" where
  "first_fault f [] = None"
| "first_fault f (w # ws) = (case f w of Inl e \<Rightarrow> Some e | Inr v \<Rightarrow> first_fault f ws)"

definition loaded :: "error + ('a::semiring_0 \<times> 'a) \<Rightarrow> 'a \<times> 'a" where
  "loaded r = (case r of Inl e \<Rightarrow> (0, 0) | Inr v \<Rightarrow> v)"

text \<open>
  Lines 51 to 63 for all threads of the block: a fault of one thread ends the kernel;
  otherwise every thread has stored its two elements.
\<close>

definition load_tiles ::
  "'a::semiring_0 list \<Rightarrow> 'a list \<Rightarrow> kernel_dims \<Rightarrow> dim3 \<Rightarrow> dim3 \<Rightarrow> int \<Rightarrow> 'a block_state
     \<Rightarrow> error + 'a block_state" where
  "load_tiles A B d blockIdx blockDim t st =
     (case first_fault (thread_loads A B d blockIdx blockDim t) (indices blockDim) of
        Some e \<Rightarrow> Inl e
      | None \<Rightarrow>
          Inr (st\<lparr>ds_A := (\<lambda>ty tx. if in_block blockDim (Dim3 tx ty 0)
                               then fst (loaded (thread_loads A B d blockIdx blockDim t (Dim3 tx ty 0)))
                               else ds_A st ty tx),
                  ds_B := (\<lambda>ty tx. if in_block blockDim (Dim3 tx ty 0)
                               then snd (loaded (thread_loads A B d blockIdx blockDim t (Dim3 tx ty 0)))
                               else ds_B st ty tx),
                  events := (\<lambda>th. if in_block blockDim th
                               then events st th @
                                 [StoreA (fst (loaded (thread_loads A B d blockIdx blockDim t th))),
                                  StoreB (snd (loaded (thread_loads A B d blockIdx blockDim t th)))]
                               else events st th)\<rparr>))"

text \<open>\<open>__syncthreads()\<close> (lines 65 and 70): every thread of the block passes it.\<close>

definition syncthreads :: "dim3 \<Rightarrow> 'a block_state \<Rightarrow> 'a block_state" where
  "syncthreads blockDim st =
     st\<lparr>events := (\<lambda>th. if in_block blockDim th then events st th @ [Sync] else events st th)\<rparr>"

text \<open>Lines 67 and 68 for all threads of the block.\<close>

definition accumulate_tiles :: "dim3 \<Rightarrow> 'a::semiring_0 block_state \<Rightarrow> 'a block_state" where
  "accumulate_tiles blockDim st =
     st\<lparr>Cvalues := (\<lambda>th. if in_block blockDim th
                      then tile_product (ds_A st) (ds_B st) (dim_y th) (dim_x th) 0 (Cvalues st th)
                      else Cvalues st th)\<rparr>"

text \<open>
  The loop over the tiles, lines 48 to 71. Its bound \<open>(n - 1) / TILE_WIDTH + 1\<close> is
  unsigned, so \<open>t\<close> is converted for the comparison.
\<close>

function tile_loop ::
  "'a::semiring_0 list \<Rightarrow> 'a list \<Rightarrow> kernel_dims \<Rightarrow> dim3 \<Rightarrow> dim3 \<Rightarrow> int \<Rightarrow> 'a block_state
     \<Rightarrow> error + 'a block_state" where
  "tile_loop A B d blockIdx blockDim t st =
     (if to_unsigned t < tile_count (numAColumns d) then
        (case load_tiles A B d blockIdx blockDim t st of
           Inl e \<Rightarrow> Inl e
         | Inr st1 \<Rightarrow>
             tile_loop A B d blockIdx blockDim (t + 1)
               (syncthreads blockDim (accumulate_tiles blockDim (syncthreads blockDim st1))))
      else Inr st)"
  by pat_completeness auto
termination
proof (relation "measure (\<lambda>(A, B, d, blockIdx, blockDim, t, st).
                    tile_count (numAColumns d) - to_unsigned t)")
  show "wf (measure (\<lambda>(A :: 'a list, B :: 'a list, d, blockIdx :: dim3, blockDim :: dim3, t,
                       st :: 'a block_state). tile_count (numAColumns d) - to_unsigned t))"
    by simp
next
  fix A B :: "'a list" and d :: kernel_dims and blockIdx blockDim :: dim3 and t :: int
    and st x2 :: "'a block_state"
  assume lt: "to_unsigned t < tile_count (numAColumns d)"
  have le: "tile_count (numAColumns d) \<le> 2 ^ 28"
  proof -
    have "to_unsigned (numAColumns d - 1) < 2 ^ 32"
      unfolding to_unsigned_def by (simp add: nat_less_iff)
    then have "to_unsigned (numAColumns d - 1) div 16 + 1 \<le> 2 ^ 28" by simp
    then show ?thesis by (simp add: tile_count_def unsigned_wrap_def TILE_WIDTH_def)
  qed
  have m: "t mod 2 ^ 32 < 2 ^ 28"
    using lt le unfolding to_unsigned_def by simp
  have "(t + 1) mod 2 ^ 32 = (t mod 2 ^ 32 + 1) mod 2 ^ 32"
    by (simp add: mod_add_left_eq)
  also have "\<dots> = t mod 2 ^ 32 + 1"
    using m by (intro mod_pos_pos_trivial) simp_all
  finally have "to_unsigned (t + 1) = to_unsigned t + 1"
    unfolding to_unsigned_def by (simp add: nat_add_distrib)
  then show "((A, B, d, blockIdx, blockDim, t + 1,
               syncthreads blockDim (accumulate_tiles blockDim (syncthreads blockDim x2))),
              (A, B, d, blockIdx, blockDim, t, st))
             \<in> measure (\<lambda>(A, B, d, blockIdx, blockDim, t, st).
                    tile_count (numAColumns d) - to_unsigned t)"
    using lt by simp
qed

text \<open>Lines 73 and 74: the guarded write of one thread.\<close>

definition write_C ::
  "kernel_dims \<Rightarrow> dim3 \<Rightarrow> dim3 \<Rightarrow> 'a block_state \<Rightarrow> dim3 \<Rightarrow> 'a list \<Rightarrow> error + 'a list" where
  "write_C d blockIdx blockDim st threadIdx C =
     (let Col = global_index (dim_x blockIdx) (dim_x blockDim) (dim_x threadIdx);
          Row = global_index (dim_y blockIdx) (dim_y blockDim) (dim_y threadIdx)
      in if Row < numCRows d \<and> Col < numCColumns d
         then store BufC C (Row * numCColumns d + Col) (Cvalues st threadIdx)
         else Inr C)"

definition write_events :: "kernel_dims \<Rightarrow> dim3 \<Rightarrow> dim3 \<Rightarrow> dim3 \<Rightarrow> 'a event list" where
  "write_events d blockIdx blockDim threadIdx =
     (let Col = global_index (dim_x blockIdx) (dim_x blockDim) (dim_x threadIdx);
          Row = global_index (dim_y blockIdx) (dim_y blockDim) (dim_y threadIdx)
      in if in_block blockDim threadIdx \<and> Row < numCRows d \<and> Col < numCColumns d
         then [WriteC (Row * numCColumns d + Col)]
         else [])"

text \<open>
  The kernel for one block, lines 37 to 75. The shared tiles start with whatever the
  shared memory holds (\<open>uninit\<close>), every \<open>Cvalue\<close> with \<open>0.0\<close>. The result is the buffer
  \<open>C\<close> after the block and what each of its threads has done.
\<close>

definition tiled_matrixMultiply ::
  "(nat \<Rightarrow> nat \<Rightarrow> 'a::semiring_0) \<Rightarrow> 'a list \<Rightarrow> 'a list \<Rightarrow> 'a list \<Rightarrow> kernel_dims \<Rightarrow> dim3 \<Rightarrow> dim3
     \<Rightarrow> error + ('a list \<times> (dim3 \<Rightarrow> 'a event list))" where
  "tiled_matrixMultiply uninit A B C d blockIdx blockDim =
     (case tile_loop A B d blockIdx blockDim 0
             \<lparr>ds_A = uninit, ds_B = uninit, Cvalues = (\<lambda>th. 0), events = (\<lambda>th. [])\<rparr> of
        Inl e \<Rightarrow> Inl e
      | Inr st \<Rightarrow>
          (case fold_err (write_C d blockIdx blockDim st) (indices blockDim) C of
             Inl e \<Rightarrow> Inl e
           | Inr C' \<Rightarrow>
               Inr (C', \<lambda>th. events st th @ write_events d blockIdx blockDim th)))"

text \<open>The launch: the blocks of the grid share nothing and are run in sequence.\<close>

definition tiled_block_step ::
  "(nat \<Rightarrow> nat \<Rightarrow> 'a::semiring_0) \<Rightarrow> 'a list \<Rightarrow> 'a list \<Rightarrow> kernel_dims \<Rightarrow> dim3 \<Rightarrow> dim3 \<Rightarrow> 'a list
     \<Rightarrow> error + 'a list" where
  "tiled_block_step uninit A B d blockDim blockIdx C =
     (case tiled_matrixMultiply uninit A B C d blockIdx blockDim of
        Inl e \<Rightarrow> Inl e
      | Inr (C', ev) \<Rightarrow> Inr C')"

definition tiled_launch ::
  "dim3 \<Rightarrow> dim3 \<Rightarrow> (nat \<Rightarrow> nat \<Rightarrow> 'a::semiring_0) \<Rightarrow> 'a list \<Rightarrow> 'a list \<Rightarrow> 'a list \<Rightarrow> kernel_dims
     \<Rightarrow> error + 'a list" where
  "tiled_launch gridDim blockDim uninit A B C d =
     fold_err (tiled_block_step uninit A B d blockDim) (indices gridDim) C"

text \<open>The launch of \<open>main\<close>, with its grid and block (lines 132 to 140).\<close>

definition tiled_kernel ::
  "(nat \<Rightarrow> nat \<Rightarrow> 'a::semiring_0) \<Rightarrow> 'a list \<Rightarrow> 'a list \<Rightarrow> 'a list \<Rightarrow> kernel_dims \<Rightarrow> error + 'a list" where
  "tiled_kernel uninit A B C d =
     tiled_launch (tiled_dimGrid (numCRows d) (numCColumns d)) dimBlock uninit A B C d"

text \<open>Shared memory that happens to hold zeros when a block starts.\<close>

definition cleared :: "nat \<Rightarrow> nat \<Rightarrow> 'a::zero" where
  "cleared ty tx = 0"

section \<open>The host program\<close>



















section \<open>Machine arithmetic within range\<close>

declare simple_loop.simps [simp del]

lemma to_unsigned_id: "0 \<le> i \<Longrightarrow> i < 2 ^ 32 \<Longrightarrow> to_unsigned i = nat i"
  by (simp add: to_unsigned_def)

lemma to_int_id: "u < 2 ^ 31 \<Longrightarrow> to_int u = int u"
  by (simp add: to_int_def)

lemma tile_count_pos:
  assumes "1 \<le> n" "n < 2 ^ 31"
  shows "tile_count n = nat ((n - 1) div 16) + 1"
proof -
  have a: "to_unsigned (n - 1) = nat (n - 1)"
    using assms by (intro to_unsigned_id) auto
  have "nat (n - 1) div 16 + 1 < 2 ^ 32"
    using assms by auto
  then show ?thesis
    using assms by (simp add: tile_count_def a unsigned_wrap_def TILE_WIDTH_def nat_div_distrib)
qed

lemma tile_count_zero: "tile_count 0 = 2 ^ 28"
  by (simp add: tile_count_def to_unsigned_def unsigned_wrap_def TILE_WIDTH_def)

lemma tile_count_le: "tile_count n \<le> 2 ^ 28"
proof -
  have "to_unsigned (n - 1) < 2 ^ 32"
    unfolding to_unsigned_def by (simp add: nat_less_iff)
  then have "to_unsigned (n - 1) div 16 + 1 \<le> 2 ^ 28" by simp
  then show ?thesis
    by (simp add: tile_count_def unsigned_wrap_def TILE_WIDTH_def)
qed

lemma global_index_small:
  assumes "b * 16 + t < 2 ^ 31"
  shows "global_index b 16 t = int b * 16 + int t"
proof -
  have "b * 16 < 2 ^ 32" "b * 16 + t < 2 ^ 32" using assms by auto
  then show ?thesis using assms
    by (simp add: global_index_def unsigned_wrap_def to_int_id)
qed

lemma Dim3_in_indices:
  "Dim3 i j k \<in> set (indices ext) \<longleftrightarrow> i < dim_x ext \<and> j < dim_y ext \<and> k < dim_z ext"
  unfolding indices_def by (auto simp: image_iff)

lemma set_indices:
  "set (indices ext) = {i. dim_x i < dim_x ext \<and> dim_y i < dim_y ext \<and> dim_z i < dim_z ext}"
proof -
  have "i \<in> set (indices ext) \<longleftrightarrow>
          dim_x i < dim_x ext \<and> dim_y i < dim_y ext \<and> dim_z i < dim_z ext" for i :: dim3
    by (cases i) (simp add: Dim3_in_indices)
  then show ?thesis by blast
qed

lemma row_major_bound:
  fixes r c rows cols :: int
  assumes "0 \<le> r" "r < rows" "0 \<le> c" "c < cols"
  shows "0 \<le> r * cols + c" "r * cols + c < rows * cols"
proof -
  show "0 \<le> r * cols + c" using assms by simp
  have "r * cols + c < r * cols + cols" using assms by simp
  also have "\<dots> = (r + 1) * cols" by (simp add: algebra_simps)
  also have "\<dots> \<le> rows * cols" using assms by (intro mult_right_mono) auto
  finally show "r * cols + c < rows * cols" .
qed

section \<open>The naive kernel: one thread\<close>

lemma simple_loop_steps:
  fixes A B :: "'a::semiring_0 list"
  assumes "i + int m = numAColumns d"
    and "\<And>k. i \<le> k \<Longrightarrow> k < numAColumns d \<Longrightarrow>
           0 \<le> Row * numAColumns d + k \<and> Row * numAColumns d + k < int (length A)"
    and "\<And>k. i \<le> k \<Longrightarrow> k < numAColumns d \<Longrightarrow>
           0 \<le> Col + k * numBColumns d \<and> Col + k * numBColumns d < int (length B)"
  shows "simple_loop A B d Row Col i Cvalue tr =
           Inr (Cvalue + (\<Sum>j<m. A ! nat (Row * numAColumns d + (i + int j)) *
                                 B ! nat (Col + (i + int j) * numBColumns d)),
                tr @ concat (map (\<lambda>j. [Read BufA (Row * numAColumns d + (i + int j)),
                                        Read BufB (Col + (i + int j) * numBColumns d)]) [0..<m]))"
  using assms
proof (induction m arbitrary: i Cvalue tr)
  case 0
  then show ?case by (simp add: simple_loop.simps)
next
  case (Suc m)
  have lt: "i < numAColumns d" using Suc.prems(1) by simp
  have ra: "load BufA A (Row * numAColumns d + i) = Inr (A ! nat (Row * numAColumns d + i))"
    using Suc.prems(2)[of i] lt by (simp add: load_def)
  have rb: "load BufB B (Col + i * numBColumns d) = Inr (B ! nat (Col + i * numBColumns d))"
    using Suc.prems(3)[of i] lt by (simp add: load_def)
  have ih: "simple_loop A B d Row Col (i + 1) Cv' tr' =
           Inr (Cv' + (\<Sum>j<m. A ! nat (Row * numAColumns d + (i + 1 + int j)) *
                                 B ! nat (Col + (i + 1 + int j) * numBColumns d)),
                tr' @ concat (map (\<lambda>j. [Read BufA (Row * numAColumns d + (i + 1 + int j)),
                                        Read BufB (Col + (i + 1 + int j) * numBColumns d)]) [0..<m]))"
    for Cv' tr'
    using Suc.prems by (intro Suc.IH) auto
  have shift: "i + 1 + int j = i + int (Suc j)" for j by simp
  show ?case
    apply (subst simple_loop.simps)
    apply (simp only: lt if_True ra rb sum.case ih shift)
    apply (simp only: sum.lessThan_Suc_shift upt_conv_Cons[of 0 "Suc m"] map_Suc_upt[symmetric]
        list.map concat.simps map_map o_def)
    apply (simp add: add.assoc)
    done
qed

lemma simple_index_bounds:
  assumes v: "valid_matrices A B C d"
    and r: "int r < numCRows d" and c: "int c < numCColumns d"
  shows "0 \<le> k \<Longrightarrow> k < numAColumns d \<Longrightarrow>
           0 \<le> int r * numAColumns d + k \<and> int r * numAColumns d + k < int (length A)"
    and "0 \<le> k \<Longrightarrow> k < numAColumns d \<Longrightarrow>
           0 \<le> int c + k * numBColumns d \<and> int c + k * numBColumns d < int (length B)"
    and "0 \<le> int r * numCColumns d + int c \<and> int r * numCColumns d + int c < int (length C)"
proof -
  let ?n = "numAColumns d" and ?p = "numBColumns d"
  have lenA: "int (length A) = numCRows d * ?n" and lenB: "int (length B) = ?n * ?p"
    and lenC: "int (length C) = numCRows d * numCColumns d" and cp: "numCColumns d = ?p"
    using v by (auto simp: valid_matrices_def)
  show "0 \<le> int r * ?n + k \<and> int r * ?n + k < int (length A)" if "0 \<le> k" "k < ?n"
    using row_major_bound[of "int r" "numCRows d" k ?n] that r unfolding lenA by simp
  show "0 \<le> int c + k * ?p \<and> int c + k * ?p < int (length B)" if "0 \<le> k" "k < ?n"
    using row_major_bound[of k ?n "int c" ?p] that c unfolding lenB cp by (simp add: add.commute)
  show "0 \<le> int r * numCColumns d + int c \<and> int r * numCColumns d + int c < int (length C)"
    using row_major_bound[of "int r" "numCRows d" "int c" "numCColumns d"] r c unfolding lenC
    by simp
qed

lemma simple_loop_valid:
  fixes A B :: "'a::semiring_0 list"
  assumes v: "valid_matrices A B C d"
    and r: "int r < numCRows d" and c: "int c < numCColumns d"
  shows "simple_loop A B d (int r) (int c) 0 0 [] =
           Inr (reference_entry A B (nat (numAColumns d)) (nat (numBColumns d)) r c,
                concat (map (\<lambda>j. [Read BufA (int r * numAColumns d + int j),
                                     Read BufB (int c + int j * numBColumns d)])
                  [0..<nat (numAColumns d)]))"
proof -
  let ?n = "numAColumns d" and ?p = "numBColumns d"
  have n0: "0 \<le> ?n" and p0: "0 \<le> ?p" using v by (auto simp: valid_matrices_def extent_def)
  note inA = simple_index_bounds(1)[OF v r c] and inB = simple_index_bounds(2)[OF v r c]
  have run: "simple_loop A B d (int r) (int c) 0 0 [] =
           Inr (0 + (\<Sum>j<nat ?n. A ! nat (int r * ?n + (0 + int j)) *
                                 B ! nat (int c + (0 + int j) * ?p)),
                [] @ concat (map (\<lambda>j. [Read BufA (int r * ?n + (0 + int j)),
                                        Read BufB (int c + (0 + int j) * ?p)]) [0..<nat ?n]))"
    using n0 inA inB by (intro simple_loop_steps) auto
  have ia: "nat (int r * ?n + int j) = r * nat ?n + j" for j
    using n0 by (simp add: nat_add_distrib nat_mult_distrib)
  have ib: "nat (int c + int j * ?p) = j * nat ?p + c" for j
    using p0 by (simp add: nat_add_distrib nat_mult_distrib)
  have val: "(\<Sum>j<nat ?n. A ! nat (int r * ?n + (0 + int j)) * B ! nat (int c + (0 + int j) * ?p)) =
        reference_entry A B (nat ?n) (nat ?p) r c"
    by (simp add: reference_entry_def entry_def ia ib)
  show ?thesis unfolding run val by simp
qed

lemma simple_thread_in_bounds:
  fixes A B C :: "'a::semiring_0 list"
  assumes v: "valid_matrices A B C d"
    and R: "global_index (dim_x blockIdx) (dim_x blockDim) (dim_x threadIdx) = int r"
    and Cc: "global_index (dim_y blockIdx) (dim_y blockDim) (dim_y threadIdx) = int c"
    and r: "int r < numCRows d" and c: "int c < numCColumns d"
  shows "simple_matrixMultiply A B C d blockIdx blockDim threadIdx =
           Inr (C[r * nat (numCColumns d) + c :=
                    reference_entry A B (nat (numAColumns d)) (nat (numBColumns d)) r c],
                concat (map (\<lambda>j. [Read BufA (int r * numAColumns d + int j),
                                     Read BufB (int c + int j * numBColumns d)])
                  [0..<nat (numAColumns d)]) @
                [Write BufC (int r * numCColumns d + int c)])"
    and "r * nat (numCColumns d) + c < length C"
proof -
  note run = simple_loop_valid[OF v r c]
  have p0: "0 \<le> numCColumns d"
    using v by (auto simp: valid_matrices_def extent_def)
  note inC = simple_index_bounds(3)[OF v r c]
  have idx: "nat (int r * numCColumns d + int c) = r * nat (numCColumns d) + c"
    using p0 by (simp add: nat_add_distrib nat_mult_distrib)
  show lt: "r * nat (numCColumns d) + c < length C"
    using inC idx by linarith
  show "simple_matrixMultiply A B C d blockIdx blockDim threadIdx =
           Inr (C[r * nat (numCColumns d) + c :=
                    reference_entry A B (nat (numAColumns d)) (nat (numBColumns d)) r c],
                concat (map (\<lambda>j. [Read BufA (int r * numAColumns d + int j),
                                     Read BufB (int c + int j * numBColumns d)])
                  [0..<nat (numAColumns d)]) @
                [Write BufC (int r * numCColumns d + int c)])"
    using lt inC by (simp add: simple_matrixMultiply_def Let_def R Cc r c run store_def idx)
qed

lemma simple_thread_out_of_bounds:
  assumes "\<not> (global_index (dim_x blockIdx) (dim_x blockDim) (dim_x threadIdx) < numCRows d \<and>
              global_index (dim_y blockIdx) (dim_y blockDim) (dim_y threadIdx) < numCColumns d)"
  shows "simple_matrixMultiply A B C d blockIdx blockDim threadIdx = Inr (C, [])"
  using assms by (auto simp: simple_matrixMultiply_def Let_def)

section \<open>The naive kernel: the whole grid\<close>

lemma fold_err_updates:
  assumes step: "\<And>w C. w \<in> set ws \<Longrightarrow> length C = n \<Longrightarrow>
       f w C = Inr (if P w then C[k w := h (k w)] else C)"
    and len: "length C = n"
  shows "\<exists>C'. fold_err f ws C = Inr C' \<and> length C' = n \<and>
           (\<forall>j<n. C' ! j = (if \<exists>w\<in>set ws. P w \<and> k w = j then h j else C ! j))"
  using assms
proof (induction ws arbitrary: C)
  case Nil
  then show ?case by simp
next
  case (Cons w ws)
  let ?C1 = "if P w then C[k w := h (k w)] else C"
  have f1: "f w C = Inr ?C1" using Cons.prems by simp
  have l1: "length ?C1 = n" using Cons.prems(2) by simp
  obtain C' where run: "fold_err f ws ?C1 = Inr C'" and l': "length C' = n"
    and cells: "\<forall>j<n. C' ! j = (if \<exists>w\<in>set ws. P w \<and> k w = j then h j else ?C1 ! j)"
    using Cons.IH[of ?C1] Cons.prems(1) l1 by (metis list.set_intros(2))
  have "C' ! j = (if \<exists>v\<in>set (w # ws). P v \<and> k v = j then h j else C ! j)" if "j < n" for j
    using cells that Cons.prems(2) by (auto simp: nth_list_update)
  then show ?case using run l' f1 by simp
qed

lemma div_mod_row_major:
  fixes r c p :: nat
  assumes "c < p"
  shows "(r * p + c) div p = r" "(r * p + c) mod p = c"
  using assms by auto

lemma grid_thread_coords:
  assumes n: "1 \<le> n" "n < 2 ^ 31" and b: "b < tile_count n" and t: "t < 16"
  shows "global_index b 16 t = int (b * 16 + t)"
proof -
  have "nat ((n - 1) div 16) < 2 ^ 27" using n by auto
  then have "b < 2 ^ 27" using b tile_count_pos[OF n] by simp
  then have "b * 16 + t < 2 ^ 31" using t by simp
  then show ?thesis by (simp add: global_index_small)
qed

lemma grid_covers:
  assumes n: "1 \<le> n" "n < 2 ^ 31" and r: "int r < n"
  shows "r div 16 < tile_count n" "r mod 16 < 16" "(r div 16) * 16 + r mod 16 = r"
proof -
  have "int r \<le> n - 1" using r by simp
  then have "int r div 16 \<le> (n - 1) div 16" by (rule zdiv_mono1) simp
  then have "r div 16 \<le> nat ((n - 1) div 16)" by (simp add: zdiv_int le_nat_iff)
  then show "r div 16 < tile_count n" using tile_count_pos[OF n] by simp
qed auto

lemma valid_matrices_length:
  "valid_matrices A B C d \<Longrightarrow> length C' = length C \<Longrightarrow> valid_matrices A B C' d"
  unfolding valid_matrices_def by auto

lemma simple_thread_step_grid:
  fixes A B C :: "'a::semiring_0 list"
  assumes v: "valid_matrices A B C d"
    and rows: "1 \<le> numCRows d" and cols: "1 \<le> numCColumns d"
    and w: "w \<in> set (List.product (indices (simple_dimGrid (numCRows d) (numCColumns d)))
                      (indices dimBlock))"
  shows "simple_thread_step A B d dimBlock w C =
     Inr (if int (dim_x (fst w) * 16 + dim_x (snd w)) < numCRows d \<and>
             int (dim_y (fst w) * 16 + dim_y (snd w)) < numCColumns d
          then C[(dim_x (fst w) * 16 + dim_x (snd w)) * nat (numCColumns d) +
                   (dim_y (fst w) * 16 + dim_y (snd w)) :=
                 reference_entry A B (nat (numAColumns d)) (nat (numBColumns d))
                   (((dim_x (fst w) * 16 + dim_x (snd w)) * nat (numCColumns d) +
                       (dim_y (fst w) * 16 + dim_y (snd w))) div nat (numCColumns d))
                   (((dim_x (fst w) * 16 + dim_x (snd w)) * nat (numCColumns d) +
                       (dim_y (fst w) * 16 + dim_y (snd w))) mod nat (numCColumns d))]
          else C)"
proof -
  obtain b t where wbt: "w = (b, t)" by (cases w)
  let ?r = "dim_x b * 16 + dim_x t" and ?c = "dim_y b * 16 + dim_y t"
  have ext: "numCRows d < 2 ^ 31" "numCColumns d < 2 ^ 31"
    using v by (auto simp: valid_matrices_def extent_def)
  have b: "dim_x b < tile_count (numCRows d)" "dim_y b < tile_count (numCColumns d)"
    and t: "dim_x t < 16" "dim_y t < 16"
    using w unfolding wbt by (auto simp: set_indices simple_dimGrid_def dimBlock_def TILE_WIDTH_def)
  have R: "global_index (dim_x b) (dim_x dimBlock) (dim_x t) = int ?r"
    using grid_thread_coords[OF rows ext(1) b(1) t(1)] by (simp add: dimBlock_def TILE_WIDTH_def)
  have Cc: "global_index (dim_y b) (dim_y dimBlock) (dim_y t) = int ?c"
    using grid_thread_coords[OF cols ext(2) b(2) t(2)] by (simp add: dimBlock_def TILE_WIDTH_def)
  show ?thesis
  proof (cases "int ?r < numCRows d \<and> int ?c < numCColumns d")
    case True
    then have cc: "?c < nat (numCColumns d)" by linarith
    have "simple_matrixMultiply A B C d b dimBlock t =
           Inr (C[?r * nat (numCColumns d) + ?c :=
                    reference_entry A B (nat (numAColumns d)) (nat (numBColumns d)) ?r ?c],
                concat (map (\<lambda>j. [Read BufA (int ?r * numAColumns d + int j),
                                     Read BufB (int ?c + int j * numBColumns d)])
                  [0..<nat (numAColumns d)]) @
                [Write BufC (int ?r * numCColumns d + int ?c)])"
      using simple_thread_in_bounds(1)[OF v R Cc] True by blast
    then show ?thesis
      using True cc unfolding wbt simple_thread_step_def by simp
  next
    case False
    then have "simple_matrixMultiply A B C d b dimBlock t = Inr (C, [])"
      by (intro simple_thread_out_of_bounds) (simp add: R Cc)
    then have "simple_thread_step A B d dimBlock (b, t) C = Inr C"
      by (simp add: simple_thread_step_def)
    then show ?thesis unfolding wbt by (simp only: fst_conv snd_conv False if_False)
  qed
qed

lemma simple_kernel_cells:
  fixes A B C :: "'a::semiring_0 list"
  assumes v: "valid_matrices A B C d"
    and rows: "1 \<le> numCRows d" and cols: "1 \<le> numCColumns d"
  shows "\<exists>C'. simple_kernel A B C d = Inr C' \<and> length C' = length C \<and>
           (\<forall>r c. int r < numCRows d \<longrightarrow> int c < numCColumns d \<longrightarrow>
              C' ! (r * nat (numCColumns d) + c) =
                reference_entry A B (nat (numAColumns d)) (nat (numBColumns d)) r c)"
proof -
  let ?ws = "List.product (indices (simple_dimGrid (numCRows d) (numCColumns d))) (indices dimBlock)"
  let ?p = "nat (numCColumns d)"
  let ?P = "\<lambda>w. int (dim_x (fst w) * 16 + dim_x (snd w)) < numCRows d \<and>
             int (dim_y (fst w) * 16 + dim_y (snd w)) < numCColumns d"
  let ?k = "\<lambda>w. (dim_x (fst w) * 16 + dim_x (snd w)) * ?p + (dim_y (fst w) * 16 + dim_y (snd w))"
  let ?h = "\<lambda>j. reference_entry A B (nat (numAColumns d)) (nat (numBColumns d)) (j div ?p) (j mod ?p)"
  have ext: "numCRows d < 2 ^ 31" "numCColumns d < 2 ^ 31"
    and lenC: "int (length C) = numCRows d * numCColumns d"
    using v by (auto simp: valid_matrices_def extent_def)
  have step: "simple_thread_step A B d dimBlock w C1 = Inr (if ?P w then C1[?k w := ?h (?k w)] else C1)"
    if "w \<in> set ?ws" "length C1 = length C" for w C1
    using simple_thread_step_grid[OF valid_matrices_length[OF v that(2)] rows cols that(1)] .
  obtain C' where run: "fold_err (simple_thread_step A B d dimBlock) ?ws C = Inr C'"
    and len: "length C' = length C"
    and cells: "\<forall>j<length C. C' ! j = (if \<exists>w\<in>set ?ws. ?P w \<and> ?k w = j then ?h j else C ! j)"
    using fold_err_updates[of ?ws "length C" "simple_thread_step A B d dimBlock" ?P ?k ?h C, OF step]
    by blast
  have "C' ! (r * ?p + c) = reference_entry A B (nat (numAColumns d)) (nat (numBColumns d)) r c"
    if r: "int r < numCRows d" and c: "int c < numCColumns d" for r c
  proof -
    have cp: "c < ?p" using c by linarith
    have "int (r * ?p + c) = int r * numCColumns d + int c" using cols by simp
    also have "\<dots> < numCRows d * numCColumns d"
      using row_major_bound(2)[of "int r" "numCRows d" "int c" "numCColumns d"] r c by simp
    finally have j: "r * ?p + c < length C" using lenC by linarith
    let ?w = "(Dim3 (r div 16) (c div 16) 0, Dim3 (r mod 16) (c mod 16) 0)"
    have "?w \<in> set ?ws"
      using grid_covers(1)[OF rows ext(1) r] grid_covers(1)[OF cols ext(2) c]
      by (simp add: Dim3_in_indices simple_dimGrid_def dimBlock_def TILE_WIDTH_def)
    moreover have "?P ?w" using r c by simp
    moreover have "?k ?w = r * ?p + c" by simp
    ultimately have "\<exists>w\<in>set ?ws. ?P w \<and> ?k w = r * ?p + c" by blast
    then have "C' ! (r * ?p + c) = ?h (r * ?p + c)" using cells j by simp
    then show ?thesis using cp by simp
  qed
  then show ?thesis using run len unfolding simple_kernel_def simple_launch_def by blast
qed

lemma concat_rows_length:
  "length (concat (map (\<lambda>r. map (f r) [0..<p]) [0..<m])) = m * p"
  by (induction m) simp_all

lemma concat_rows_nth:
  assumes "r < m" "c < p"
  shows "concat (map (\<lambda>r. map (f r) [0..<p]) [0..<m]) ! (r * p + c) = f r c"
  using assms
proof (induction m)
  case 0
  then show ?case by simp
next
  case (Suc m)
  show ?case
  proof (cases "r < m")
    case True
    then have "r * p + c < m * p"
    proof -
      have "r * p + c < r * p + p" using Suc.prems by simp
      also have "\<dots> = Suc r * p" by simp
      also have "\<dots> \<le> m * p" using True by (intro mult_le_mono1) simp
      finally show ?thesis .
    qed
    then show ?thesis using Suc.IH True Suc.prems
      by (simp add: nth_append concat_rows_length)
  next
    case False
    then have "r = m" using Suc.prems by simp
    then show ?thesis using Suc.prems by (simp add: nth_append concat_rows_length)
  qed
qed

lemma reference_multiply_length:
  "length (reference_multiply A B m n p) = m * p"
  unfolding reference_multiply_def by (rule concat_rows_length)

lemma reference_multiply_nth:
  "r < m \<Longrightarrow> c < p \<Longrightarrow>
     reference_multiply A B m n p ! (r * p + c) = reference_entry A B n p r c"
  unfolding reference_multiply_def by (rule concat_rows_nth)

lemma eq_reference_multiply:
  assumes len: "length C' = m * p"
    and cells: "\<And>r c. r < m \<Longrightarrow> c < p \<Longrightarrow> C' ! (r * p + c) = reference_entry A B n p r c"
  shows "C' = reference_multiply A B m n p"
proof (rule nth_equalityI)
  show "length C' = length (reference_multiply A B m n p)"
    by (simp add: len reference_multiply_length)
next
  fix j assume "j < length C'"
  then have j: "j < m * p" by (simp add: len)
  then have p: "0 < p" by (cases p) auto
  have r: "j div p < m" using j p by (simp add: less_mult_imp_div_less)
  have c: "j mod p < p" using p by simp
  have "C' ! (j div p * p + j mod p) = reference_multiply A B m n p ! (j div p * p + j mod p)"
    using cells[OF r c] reference_multiply_nth[OF r c, of A B n] by simp
  then show "C' ! j = reference_multiply A B m n p ! j" by simp
qed

lemma simple_kernel_reference:
  fixes A B C :: "'a::semiring_0 list"
  assumes v: "valid_matrices A B C d"
    and rows: "1 \<le> numCRows d" and cols: "1 \<le> numCColumns d"
  shows "simple_kernel A B C d =
           Inr (reference_multiply A B (nat (numARows d)) (nat (numAColumns d)) (nat (numBColumns d)))"
proof -
  obtain C' where run: "simple_kernel A B C d = Inr C'" and len: "length C' = length C"
    and cells: "\<And>r c. int r < numCRows d \<Longrightarrow> int c < numCColumns d \<Longrightarrow>
              C' ! (r * nat (numCColumns d) + c) =
                reference_entry A B (nat (numAColumns d)) (nat (numBColumns d)) r c"
    using simple_kernel_cells[OF v rows cols] by blast
  have eqs: "numCRows d = numARows d" "numCColumns d = numBColumns d"
    and lenC: "int (length C) = numCRows d * numCColumns d"
    using v by (auto simp: valid_matrices_def)
  have l2: "length C' = nat (numARows d) * nat (numBColumns d)"
    using len lenC rows cols unfolding eqs by (metis nat_int nat_mult_distrib zero_le_one order_trans)
  have "C' = reference_multiply A B (nat (numARows d)) (nat (numAColumns d)) (nat (numBColumns d))"
  proof (rule eq_reference_multiply[OF l2])
    fix r c assume "r < nat (numARows d)" "c < nat (numBColumns d)"
    then have "int r < numCRows d" "int c < numCColumns d" unfolding eqs by auto
    then show "C' ! (r * nat (numBColumns d) + c) =
        reference_entry A B (nat (numAColumns d)) (nat (numBColumns d)) r c"
      using cells[of r c] unfolding eqs by simp
  qed
  then show ?thesis using run by simp
qed

lemma ceil_div_16: "- (- n div 16) = (n - 1) div 16 + (1::int)"
  by linarith

lemma tile_count_ceiling:
  assumes "1 \<le> n" "n < 2 ^ 31"
  shows "int (tile_count n) = \<lceil>real_of_int n / real TILE_WIDTH\<rceil>"
proof -
  have "real TILE_WIDTH = real_of_int 16" by (simp add: TILE_WIDTH_def)
  then have "\<lceil>real_of_int n / real TILE_WIDTH\<rceil> = - (- n div 16)"
    by (simp only: ceiling_divide_eq_div)
  then have c: "\<lceil>real_of_int n / real TILE_WIDTH\<rceil> = (n - 1) div 16 + 1"
    by (simp only: ceil_div_16)
  have nn: "0 \<le> (n - 1) div 16"
    using assms(1) by (simp add: pos_imp_zdiv_nonneg_iff)
  have "int (tile_count n) = int (nat ((n - 1) div 16) + 1)"
    by (simp only: tile_count_pos[OF assms])
  also have "\<dots> = (n - 1) div 16 + 1" using nn by simp
  finally show ?thesis using c by simp
qed

lemma global_index_eval:
  "global_index 0 16 0 = 0" "global_index 0 16 (Suc 0) = 1" "global_index 0 16 2 = 2"
  by (simp_all add: global_index_def unsigned_wrap_def to_int_def)

section \<open>The tiled kernel: one block\<close>

declare tile_product.simps [simp del] tile_loop.simps [simp del]

lemma tile_product_steps:
  fixes a b :: "nat \<Rightarrow> nat \<Rightarrow> 'a::semiring_0"
  assumes "i + m = TILE_WIDTH"
  shows "tile_product a b ty tx i c = c + (\<Sum>j<m. a ty (i + j) * b (i + j) tx)"
  using assms
proof (induction m arbitrary: i c)
  case 0
  then show ?case by (simp add: tile_product.simps)
next
  case (Suc m)
  have lt: "i < TILE_WIDTH" using Suc.prems by simp
  have ih: "tile_product a b ty tx (i + 1) c' = c' + (\<Sum>j<m. a ty (i + 1 + j) * b (i + 1 + j) tx)"
    for c'
    using Suc.prems by (intro Suc.IH) simp
  have shift: "i + 1 + j = i + Suc j" for j by simp
  show ?case
    apply (subst tile_product.simps)
    apply (simp only: lt if_True ih shift)
    apply (simp only: sum.lessThan_Suc_shift)
    apply (simp add: add.assoc)
    done
qed

lemma tile_product_sum:
  fixes a b :: "nat \<Rightarrow> nat \<Rightarrow> 'a::semiring_0"
  shows "tile_product a b ty tx 0 c = c + (\<Sum>i<TILE_WIDTH. a ty i * b i tx)"
  using tile_product_steps[of 0 TILE_WIDTH a b ty tx c] by simp

lemma first_fault_None:
  "first_fault f ws = None \<longleftrightarrow> (\<forall>w\<in>set ws. \<exists>v. f w = Inr v)"
  by (induction ws) (auto split: sum.splits)

lemma first_fault_Some:
  "first_fault f ws = Some e \<Longrightarrow> \<exists>w\<in>set ws. f w = Inl e"
  by (induction ws) (auto split: sum.splits)

lemma in_block_indices: "in_block ext th \<longleftrightarrow> th \<in> set (indices ext)"
  by (simp add: in_block_def set_indices)

lemma to_unsigned_int: "u < 2 ^ 32 \<Longrightarrow> to_unsigned (int u) = u"
  by (simp add: to_unsigned_def)

lemma tile_coord_small:
  assumes "t * 16 + i < 2 ^ 31"
  shows "tile_coord (int t) i = int (t * 16 + i)"
proof -
  have "t < 2 ^ 32" "t * 16 < 2 ^ 32" "t * 16 + i < 2 ^ 32" using assms by auto
  then show ?thesis using assms
    by (simp add: tile_coord_def unsigned_wrap_def to_int_id to_unsigned_int TILE_WIDTH_def)
qed

text \<open>One iteration of the tile loop, when no thread faults.\<close>

lemma load_tiles_Inr:
  assumes "first_fault (thread_loads A B d bi bd t) (indices bd) = None"
  shows "load_tiles A B d bi bd t st =
     Inr (st\<lparr>ds_A := (\<lambda>ty tx. if in_block bd (Dim3 tx ty 0)
                               then fst (loaded (thread_loads A B d bi bd t (Dim3 tx ty 0)))
                               else ds_A st ty tx),
                  ds_B := (\<lambda>ty tx. if in_block bd (Dim3 tx ty 0)
                               then snd (loaded (thread_loads A B d bi bd t (Dim3 tx ty 0)))
                               else ds_B st ty tx),
                  events := (\<lambda>th. if in_block bd th
                               then events st th @
                                 [StoreA (fst (loaded (thread_loads A B d bi bd t th))),
                                  StoreB (snd (loaded (thread_loads A B d bi bd t th)))]
                               else events st th)\<rparr>)"
  by (simp add: load_tiles_def assms)

lemma load_tiles_Inl:
  assumes "first_fault (thread_loads A B d bi bd t) (indices bd) = Some e"
  shows "load_tiles A B d bi bd t st = Inl e"
  by (simp add: load_tiles_def assms)

lemma in_dimBlock:
  "in_block dimBlock th \<longleftrightarrow> dim_x th < 16 \<and> dim_y th < 16 \<and> dim_z th = 0"
  by (auto simp: in_block_def dimBlock_def TILE_WIDTH_def)

lemma one_tile:
  fixes A B :: "'a::semiring_0 list"
  assumes ff: "first_fault (thread_loads A B d bi dimBlock t) (indices dimBlock) = None"
  shows "\<exists>st1. load_tiles A B d bi dimBlock t st = Inr st1 \<and>
     events (syncthreads dimBlock (accumulate_tiles dimBlock (syncthreads dimBlock st1))) =
       (\<lambda>th. if in_block dimBlock th
             then events st th @
               [StoreA (fst (loaded (thread_loads A B d bi dimBlock t th))),
                StoreB (snd (loaded (thread_loads A B d bi dimBlock t th))), Sync, Sync]
             else events st th) \<and>
     Cvalues (syncthreads dimBlock (accumulate_tiles dimBlock (syncthreads dimBlock st1))) =
       (\<lambda>th. if in_block dimBlock th
             then Cvalues st th +
               (\<Sum>i<TILE_WIDTH.
                  fst (loaded (thread_loads A B d bi dimBlock t (Dim3 i (dim_y th) 0))) *
                  snd (loaded (thread_loads A B d bi dimBlock t (Dim3 (dim_x th) i 0))))
             else Cvalues st th)"
proof -
  let ?L = "\<lambda>th. loaded (thread_loads A B d bi dimBlock t th)"
  let ?st1 = "st\<lparr>ds_A := (\<lambda>ty tx. if in_block dimBlock (Dim3 tx ty 0)
                               then fst (?L (Dim3 tx ty 0)) else ds_A st ty tx),
                  ds_B := (\<lambda>ty tx. if in_block dimBlock (Dim3 tx ty 0)
                               then snd (?L (Dim3 tx ty 0)) else ds_B st ty tx),
                  events := (\<lambda>th. if in_block dimBlock th
                               then events st th @ [StoreA (fst (?L th)), StoreB (snd (?L th))]
                               else events st th)\<rparr>"
  have l: "load_tiles A B d bi dimBlock t st = Inr ?st1"
    by (rule load_tiles_Inr[OF ff])
  have ev: "events (syncthreads dimBlock (accumulate_tiles dimBlock (syncthreads dimBlock ?st1))) =
       (\<lambda>th. if in_block dimBlock th
             then events st th @ [StoreA (fst (?L th)), StoreB (snd (?L th)), Sync, Sync]
             else events st th)"
    by (rule ext) (simp add: syncthreads_def accumulate_tiles_def)
  have cv: "Cvalues (syncthreads dimBlock (accumulate_tiles dimBlock (syncthreads dimBlock ?st1))) th =
       (if in_block dimBlock th
             then Cvalues st th +
               (\<Sum>i<TILE_WIDTH. fst (?L (Dim3 i (dim_y th) 0)) * snd (?L (Dim3 (dim_x th) i 0)))
             else Cvalues st th)" for th
  proof (cases "in_block dimBlock th")
    case True
    then have xy: "dim_x th < 16" "dim_y th < 16" by (simp_all add: in_dimBlock)
    have "(\<Sum>i<TILE_WIDTH. ds_A ?st1 (dim_y th) i * ds_B ?st1 i (dim_x th)) =
          (\<Sum>i<TILE_WIDTH. fst (?L (Dim3 i (dim_y th) 0)) * snd (?L (Dim3 (dim_x th) i 0)))"
      by (rule sum.cong) (simp_all add: in_dimBlock xy TILE_WIDTH_def)
    then show ?thesis
      using True by (simp add: syncthreads_def accumulate_tiles_def tile_product_sum)
  next
    case False
    then show ?thesis by (simp add: syncthreads_def accumulate_tiles_def)
  qed
  show ?thesis
    apply (rule exI[of _ ?st1])
    apply (intro conjI)
      apply (rule l)
     apply (rule ev)
    apply (rule ext)
    apply (rule cv)
    done
qed

lemma tile_loop_runs:
  fixes A B :: "'a::semiring_0 list"
  assumes "t + m = tile_count (numAColumns d)"
    and "\<And>u. u < m \<Longrightarrow>
           first_fault (thread_loads A B d bi dimBlock (int (t + u))) (indices dimBlock) = None"
  shows "\<exists>st'. tile_loop A B d bi dimBlock (int t) st = Inr st' \<and>
     (\<forall>th. events st' th =
        (if in_block dimBlock th
         then events st th @ concat (map (\<lambda>u.
                [StoreA (fst (loaded (thread_loads A B d bi dimBlock (int (t + u)) th))),
                 StoreB (snd (loaded (thread_loads A B d bi dimBlock (int (t + u)) th))),
                 Sync, Sync]) [0..<m])
         else events st th)) \<and>
     (\<forall>th. Cvalues st' th =
        (if in_block dimBlock th
         then Cvalues st th + (\<Sum>u<m. \<Sum>i<TILE_WIDTH.
                fst (loaded (thread_loads A B d bi dimBlock (int (t + u)) (Dim3 i (dim_y th) 0))) *
                snd (loaded (thread_loads A B d bi dimBlock (int (t + u)) (Dim3 (dim_x th) i 0))))
         else Cvalues st th))"
  using assms
proof (induction m arbitrary: t st)
  case 0
  then have "\<not> to_unsigned (int t) < tile_count (numAColumns d)"
    using tile_count_le[of "numAColumns d"] by (simp add: to_unsigned_int)
  then have "tile_loop A B d bi dimBlock (int t) st = Inr st"
    by (subst tile_loop.simps) simp
  then show ?case by simp
next
  case (Suc m)
  let ?N = "tile_count (numAColumns d)"
  let ?E = "\<lambda>u th. [StoreA (fst (loaded (thread_loads A B d bi dimBlock (int u) th))),
                 StoreB (snd (loaded (thread_loads A B d bi dimBlock (int u) th))),
                 Sync, Sync]"
  let ?G = "\<lambda>u th. \<Sum>i<TILE_WIDTH.
                fst (loaded (thread_loads A B d bi dimBlock (int u) (Dim3 i (dim_y th) 0))) *
                snd (loaded (thread_loads A B d bi dimBlock (int u) (Dim3 (dim_x th) i 0)))"
  have tN: "t < ?N" using Suc.prems(1) by simp
  then have "t < 2 ^ 32" using tile_count_le[of "numAColumns d"] by simp
  then have guard: "to_unsigned (int t) < ?N" using tN by (simp add: to_unsigned_int)
  have ff: "first_fault (thread_loads A B d bi dimBlock (int t)) (indices dimBlock) = None"
    using Suc.prems(2)[of 0] by simp
  obtain st1 where l: "load_tiles A B d bi dimBlock (int t) st = Inr st1"
    and ev1: "events (syncthreads dimBlock (accumulate_tiles dimBlock (syncthreads dimBlock st1))) =
       (\<lambda>th. if in_block dimBlock th then events st th @ ?E t th else events st th)"
    and cv1: "Cvalues (syncthreads dimBlock (accumulate_tiles dimBlock (syncthreads dimBlock st1))) =
       (\<lambda>th. if in_block dimBlock th then Cvalues st th + ?G t th else Cvalues st th)"
    using one_tile[OF ff, of st] by blast
  let ?st2 = "syncthreads dimBlock (accumulate_tiles dimBlock (syncthreads dimBlock st1))"
  have unfold: "tile_loop A B d bi dimBlock (int t) st = tile_loop A B d bi dimBlock (int (Suc t)) ?st2"
    apply (subst tile_loop.simps)
    apply (simp only: guard if_True l sum.case)
    apply (simp add: add.commute)
    done
  have ih_prems: "Suc t + m = ?N"
    "\<And>u. u < m \<Longrightarrow>
       first_fault (thread_loads A B d bi dimBlock (int (Suc t + u))) (indices dimBlock) = None"
    using Suc.prems(1) Suc.prems(2)[of "Suc _"] by simp_all
  obtain st' where run: "tile_loop A B d bi dimBlock (int (Suc t)) ?st2 = Inr st'"
    and ev': "\<And>th. events st' th =
        (if in_block dimBlock th
         then events ?st2 th @ concat (map (\<lambda>u. ?E (Suc t + u) th) [0..<m])
         else events ?st2 th)"
    and cv': "\<And>th. Cvalues st' th =
        (if in_block dimBlock th
         then Cvalues ?st2 th + (\<Sum>u<m. ?G (Suc t + u) th)
         else Cvalues ?st2 th)"
    using Suc.IH[OF ih_prems, of ?st2] by blast
  have lists: "concat (map (\<lambda>u. ?E (t + u) th) [0..<Suc m]) =
               ?E t th @ concat (map (\<lambda>u. ?E (Suc t + u) th) [0..<m])" for th
    by (simp only: upt_conv_Cons[of 0 "Suc m"] map_Suc_upt[symmetric] list.map concat.simps
        map_map o_def) simp
  have sums: "(\<Sum>u<Suc m. ?G (t + u) th) = ?G t th + (\<Sum>u<m. ?G (Suc t + u) th)" for th
    by (simp only: sum.lessThan_Suc_shift) simp
  have "events st' th =
        (if in_block dimBlock th
         then events st th @ concat (map (\<lambda>u. ?E (t + u) th) [0..<Suc m])
         else events st th)" for th
    unfolding ev' ev1 lists by simp
  moreover have "Cvalues st' th =
        (if in_block dimBlock th
         then Cvalues st th + (\<Sum>u<Suc m. ?G (t + u) th)
         else Cvalues st th)" for th
    unfolding cv' cv1 sums by (simp add: add.assoc)
  ultimately show ?case
    unfolding unfold run by blast
qed


lemma load_A_element_valid:
  fixes A :: "'a::semiring_0 list"
  assumes v: "valid_matrices A B C d" and k: "t * 16 + tx < 2 ^ 31"
  shows "load_A_element A d (int r) (int t) tx =
     Inr (if int r < numCRows d \<and> int (t * 16 + tx) < numAColumns d
          then A ! (r * nat (numAColumns d) + (t * 16 + tx)) else 0)"
proof (cases "int r < numCRows d \<and> int (t * 16 + tx) < numAColumns d")
  case True
  have n0: "0 \<le> numAColumns d" using v by (auto simp: valid_matrices_def extent_def)
  have lenA: "int (length A) = numCRows d * numAColumns d"
    using v by (auto simp: valid_matrices_def)
  have b: "0 \<le> int r * numAColumns d + int (t * 16 + tx)"
      "int r * numAColumns d + int (t * 16 + tx) < int (length A)"
    using row_major_bound[of "int r" "numCRows d" "int (t * 16 + tx)" "numAColumns d"] True
    unfolding lenA by simp_all
  have idx: "nat (int r * numAColumns d + int (t * 16 + tx)) = r * nat (numAColumns d) + (t * 16 + tx)"
    using n0 by (simp add: nat_add_distrib nat_mult_distrib)
  show ?thesis
    using True b idx
    by (simp add: load_A_element_def Let_def tile_coord_small[OF k] load_def del: of_nat_add of_nat_mult)
next
  case False
  then show ?thesis
    by (auto simp add: load_A_element_def Let_def tile_coord_small[OF k] simp del: of_nat_add of_nat_mult)
qed

lemma load_B_element_valid:
  fixes B :: "'a::semiring_0 list"
  assumes v: "valid_matrices A B C d" and k: "t * 16 + ty < 2 ^ 31"
  shows "load_B_element B d (int c) (int t) ty =
     Inr (if int c < numCColumns d \<and> int (t * 16 + ty) < numAColumns d
          then B ! ((t * 16 + ty) * nat (numBColumns d) + c) else 0)"
proof (cases "int c < numCColumns d \<and> int (t * 16 + ty) < numAColumns d")
  case True
  have p0: "0 \<le> numBColumns d" and cp: "numCColumns d = numBColumns d"
    using v by (auto simp: valid_matrices_def extent_def)
  have lenB: "int (length B) = numAColumns d * numBColumns d"
    using v by (auto simp: valid_matrices_def)
  have b: "0 \<le> int (t * 16 + ty) * numBColumns d + int c"
      "int (t * 16 + ty) * numBColumns d + int c < int (length B)"
    using row_major_bound[of "int (t * 16 + ty)" "numAColumns d" "int c" "numBColumns d"] True
    unfolding lenB cp by simp_all
  have idx: "nat (int (t * 16 + ty) * numBColumns d + int c) = (t * 16 + ty) * nat (numBColumns d) + c"
    using p0 by (simp add: nat_add_distrib nat_mult_distrib)
  show ?thesis
    using True b idx unfolding cp
    by (simp add: load_B_element_def Let_def tile_coord_small[OF k] load_def cp
        del: of_nat_add of_nat_mult)
next
  case False
  then show ?thesis
    by (auto simp add: load_B_element_def Let_def tile_coord_small[OF k] simp del: of_nat_add of_nat_mult)
qed

lemma tile_index_small:
  assumes n: "1 \<le> n" "n < 2 ^ 31" and t: "t < tile_count n" and i: "i < 16"
  shows "t * 16 + i < 2 ^ 31"
proof -
  have "nat ((n - 1) div 16) < 2 ^ 27" using n by auto
  then have "t < 2 ^ 27" using t tile_count_pos[OF n] by simp
  then show ?thesis using i by simp
qed

lemma sum_split_offset:
  fixes f :: "nat \<Rightarrow> 'a::comm_monoid_add"
  shows "(\<Sum>k<a + j. f k) = (\<Sum>k<a. f k) + (\<Sum>i<j. f (a + i))"
  by (induction j) (simp_all add: add.assoc)

lemma sum_tiles:
  fixes f :: "nat \<Rightarrow> 'a::comm_monoid_add"
  shows "(\<Sum>u<N. \<Sum>i<16. f (u * 16 + i)) = (\<Sum>k<N * 16. f k)"
proof (induction N)
  case 0
  then show ?case by simp
next
  case (Suc N)
  have "(\<Sum>k<Suc N * 16. f k) = (\<Sum>k<N * 16 + 16. f k)" by (simp add: add.commute)
  also have "\<dots> = (\<Sum>k<N * 16. f k) + (\<Sum>i<16. f (N * 16 + i))" by (rule sum_split_offset)
  finally show ?case using Suc.IH by simp
qed

lemma padded_sum:
  fixes A B :: "'a::semiring_0 list"
  assumes r: "int r < numCRows d" and c: "int c < numCColumns d" and le: "nat (numAColumns d) \<le> M"
    and n0: "0 \<le> numAColumns d"
  shows "(\<Sum>k<M. padded_A A d r k * padded_B B d k c) =
         reference_entry A B (nat (numAColumns d)) (nat (numBColumns d)) r c"
proof -
  have "(\<Sum>k<nat (numAColumns d). padded_A A d r k * padded_B B d k c) =
        (\<Sum>k<M. padded_A A d r k * padded_B B d k c)"
  proof (rule sum.mono_neutral_left)
    show "finite {..<M}" by simp
    show "{..<nat (numAColumns d)} \<subseteq> {..<M}" using le by auto
    show "\<forall>k\<in>{..<M} - {..<nat (numAColumns d)}. padded_A A d r k * padded_B B d k c = 0"
      using n0 by (auto simp: padded_A_def padded_B_def)
  qed
  moreover have "(\<Sum>k<nat (numAColumns d). padded_A A d r k * padded_B B d k c) =
        reference_entry A B (nat (numAColumns d)) (nat (numBColumns d)) r c"
    unfolding reference_entry_def
    by (rule sum.cong) (use r c in \<open>auto simp: padded_A_def padded_B_def\<close>)
  ultimately show ?thesis by simp
qed

lemma tiles_cover:
  assumes "1 \<le> n" "n < 2 ^ 31"
  shows "nat n \<le> tile_count n * 16"
proof -
  have "n - 1 < 16 * ((n - 1) div 16) + 16" by linarith
  moreover have "0 \<le> (n - 1) div 16" using assms by simp
  ultimately have "n \<le> 16 * int (nat ((n - 1) div 16) + 1)" by simp
  then have "nat n \<le> 16 * (nat ((n - 1) div 16) + 1)" by linarith
  then show ?thesis unfolding tile_count_pos[OF assms] by (simp add: mult.commute)
qed

lemma thread_loads_valid:
  fixes A B :: "'a::semiring_0 list"
  assumes v: "valid_matrices A B C d" and n1: "1 \<le> numAColumns d"
    and rows: "1 \<le> numCRows d" and cols: "1 \<le> numCColumns d"
    and bi: "bi \<in> set (indices (tiled_dimGrid (numCRows d) (numCColumns d)))"
    and th: "in_block dimBlock th"
    and u: "u < tile_count (numAColumns d)"
  shows "thread_loads A B d bi dimBlock (int u) th =
     Inr (padded_A A d (dim_y bi * 16 + dim_y th) (u * 16 + dim_x th),
          padded_B B d (u * 16 + dim_y th) (dim_x bi * 16 + dim_x th))"
proof -
  have ext: "numCRows d < 2 ^ 31" "numCColumns d < 2 ^ 31" "numAColumns d < 2 ^ 31"
    using v by (auto simp: valid_matrices_def extent_def)
  have b: "dim_x bi < tile_count (numCColumns d)" "dim_y bi < tile_count (numCRows d)"
    using bi by (auto simp: set_indices tiled_dimGrid_def)
  have t: "dim_x th < 16" "dim_y th < 16" using th by (simp_all add: in_dimBlock)
  have Col: "global_index (dim_x bi) (dim_x dimBlock) (dim_x th) = int (dim_x bi * 16 + dim_x th)"
    using grid_thread_coords[OF cols ext(2) b(1) t(1)] by (simp add: dimBlock_def TILE_WIDTH_def)
  have Row: "global_index (dim_y bi) (dim_y dimBlock) (dim_y th) = int (dim_y bi * 16 + dim_y th)"
    using grid_thread_coords[OF rows ext(1) b(2) t(2)] by (simp add: dimBlock_def TILE_WIDTH_def)
  have kx: "u * 16 + dim_x th < 2 ^ 31" by (rule tile_index_small[OF n1 ext(3) u t(1)])
  have ky: "u * 16 + dim_y th < 2 ^ 31" by (rule tile_index_small[OF n1 ext(3) u t(2)])
  show ?thesis
    unfolding thread_loads_def Let_def Col Row
      load_A_element_valid[OF v kx] load_B_element_valid[OF v ky]
    by (simp add: padded_A_def padded_B_def entry_def)
qed

lemma fold_err_cells:
  fixes C :: "'a list"
  assumes step: "\<And>w C. w \<in> set ws \<Longrightarrow> length C = n \<Longrightarrow>
       \<exists>C'. f w C = Inr C' \<and> length C' = n \<and>
            (\<forall>j<n. C' ! j = (if Q w j then h j else C ! j))"
    and len: "length C = n"
  shows "\<exists>C'. fold_err f ws C = Inr C' \<and> length C' = n \<and>
           (\<forall>j<n. C' ! j = (if \<exists>w\<in>set ws. Q w j then h j else C ! j))"
  using assms
proof (induction ws arbitrary: C)
  case Nil
  then show ?case by simp
next
  case (Cons w ws)
  have "\<exists>C'. f w C = Inr C' \<and> length C' = n \<and>
            (\<forall>j<n. C' ! j = (if Q w j then h j else C ! j))"
    by (rule Cons.prems(1)) (simp_all add: Cons.prems(2))
  then obtain C1 where f1: "f w C = Inr C1" and l1: "length C1 = n"
    and c1: "\<forall>j<n. C1 ! j = (if Q w j then h j else C ! j)"
    by blast
  have "\<exists>C'. fold_err f ws C1 = Inr C' \<and> length C' = n \<and>
           (\<forall>j<n. C' ! j = (if \<exists>w\<in>set ws. Q w j then h j else C1 ! j))"
  proof (rule Cons.IH)
    fix v and D :: "'a list" assume "v \<in> set ws" "length D = n"
    then show "\<exists>C'. f v D = Inr C' \<and> length C' = n \<and>
            (\<forall>j<n. C' ! j = (if Q v j then h j else D ! j))"
      by (intro Cons.prems(1)) simp_all
  next
    show "length C1 = n" by (rule l1)
  qed
  then obtain C' where run: "fold_err f ws C1 = Inr C'" and l': "length C' = n"
    and cells: "\<forall>j<n. C' ! j = (if \<exists>w\<in>set ws. Q w j then h j else C1 ! j)"
    by blast
  have "C' ! j = (if \<exists>v\<in>set (w # ws). Q v j then h j else C ! j)" if "j < n" for j
  proof (cases "\<exists>v\<in>set ws. Q v j")
    case True
    then show ?thesis using cells that by auto
  next
    case False
    then show ?thesis using cells c1 that by auto
  qed
  then show ?case using run l' f1 by simp
qed

lemma tiled_block_valid:
  fixes A B C :: "'a::semiring_0 list"
  assumes v: "valid_matrices A B C d" and n1: "1 \<le> numAColumns d"
    and rows: "1 \<le> numCRows d" and cols: "1 \<le> numCColumns d"
    and bi: "bi \<in> set (indices (tiled_dimGrid (numCRows d) (numCColumns d)))"
  shows "\<exists>C'. tiled_block_step uninit A B d dimBlock bi C = Inr C' \<and> length C' = length C \<and>
     (\<forall>j<length C. C' ! j =
        (if \<exists>th\<in>set (indices dimBlock).
               (int (dim_y bi * 16 + dim_y th) < numCRows d \<and>
                int (dim_x bi * 16 + dim_x th) < numCColumns d) \<and>
               (dim_y bi * 16 + dim_y th) * nat (numCColumns d) + (dim_x bi * 16 + dim_x th) = j
         then reference_entry A B (nat (numAColumns d)) (nat (numBColumns d))
                (j div nat (numCColumns d)) (j mod nat (numCColumns d))
         else C ! j))"
proof -
  let ?N = "tile_count (numAColumns d)"
  let ?p = "nat (numCColumns d)"
  let ?r = "\<lambda>th. dim_y bi * 16 + dim_y th" and ?c = "\<lambda>th. dim_x bi * 16 + dim_x th"
  let ?P = "\<lambda>th. int (?r th) < numCRows d \<and> int (?c th) < numCColumns d"
  let ?k = "\<lambda>th. ?r th * ?p + ?c th"
  let ?h = "\<lambda>j. reference_entry A B (nat (numAColumns d)) (nat (numBColumns d)) (j div ?p) (j mod ?p)"
  let ?st0 = "\<lparr>ds_A = uninit, ds_B = uninit, Cvalues = (\<lambda>th. 0::'a), events = (\<lambda>th. [])\<rparr>"
  have ext: "numCRows d < 2 ^ 31" "numCColumns d < 2 ^ 31" "numAColumns d < 2 ^ 31"
    and n0: "0 \<le> numAColumns d"
    and lenC: "int (length C) = numCRows d * numCColumns d"
    using v by (auto simp: valid_matrices_def extent_def)
  have b: "dim_x bi < tile_count (numCColumns d)" "dim_y bi < tile_count (numCRows d)"
    using bi by (auto simp: set_indices tiled_dimGrid_def)
  note TL = thread_loads_valid[OF v n1 rows cols bi]
  have ff: "first_fault (thread_loads A B d bi dimBlock (int (0 + u))) (indices dimBlock) = None"
    if "u < ?N" for u
    unfolding first_fault_None using TL[OF _ that] by (auto simp: in_block_indices)
  obtain st' where loop: "tile_loop A B d bi dimBlock (int 0) ?st0 = Inr st'"
    and cv: "\<And>th. Cvalues st' th =
        (if in_block dimBlock th
         then Cvalues ?st0 th + (\<Sum>u<?N. \<Sum>i<TILE_WIDTH.
                fst (loaded (thread_loads A B d bi dimBlock (int (0 + u)) (Dim3 i (dim_y th) 0))) *
                snd (loaded (thread_loads A B d bi dimBlock (int (0 + u)) (Dim3 (dim_x th) i 0))))
         else Cvalues ?st0 th)"
    using tile_loop_runs[of 0 ?N d A B bi ?st0, OF _ ff] by auto
  have val: "Cvalues st' th =
      reference_entry A B (nat (numAColumns d)) (nat (numBColumns d)) (?r th) (?c th)"
    if th: "in_block dimBlock th" and P: "?P th" for th
  proof -
    have xy: "dim_x th < 16" "dim_y th < 16" using th by (simp_all add: in_dimBlock)
    have inner: "(\<Sum>i<TILE_WIDTH.
                fst (loaded (thread_loads A B d bi dimBlock (int (0 + u)) (Dim3 i (dim_y th) 0))) *
                snd (loaded (thread_loads A B d bi dimBlock (int (0 + u)) (Dim3 (dim_x th) i 0)))) =
          (\<Sum>i<16. padded_A A d (?r th) (u * 16 + i) * padded_B B d (u * 16 + i) (?c th))"
      if u: "u < ?N" for u
      unfolding TILE_WIDTH_def
    proof (rule sum.cong)
      fix i assume "i \<in> {..<16::nat}"
      then have i: "i < 16" by simp
      have t1: "in_block dimBlock (Dim3 i (dim_y th) 0)" "in_block dimBlock (Dim3 (dim_x th) i 0)"
        using i xy by (simp_all add: in_dimBlock)
      show "fst (loaded (thread_loads A B d bi dimBlock (int (0 + u)) (Dim3 i (dim_y th) 0))) *
            snd (loaded (thread_loads A B d bi dimBlock (int (0 + u)) (Dim3 (dim_x th) i 0))) =
            padded_A A d (?r th) (u * 16 + i) * padded_B B d (u * 16 + i) (?c th)"
        using TL[OF t1(1) u] TL[OF t1(2) u] by (simp add: loaded_def)
    qed simp
    have "Cvalues st' th =
        (\<Sum>u<?N. \<Sum>i<16. padded_A A d (?r th) (u * 16 + i) * padded_B B d (u * 16 + i) (?c th))"
      unfolding cv using th inner by simp
    also have "\<dots> = (\<Sum>k<?N * 16. padded_A A d (?r th) k * padded_B B d k (?c th))"
      by (rule sum_tiles)
    also have "\<dots> = reference_entry A B (nat (numAColumns d)) (nat (numBColumns d)) (?r th) (?c th)"
      using P tiles_cover[OF n1 ext(3)] n0 by (intro padded_sum) simp_all
    finally show ?thesis .
  qed
  have step: "write_C d bi dimBlock st' th C1 = Inr (if ?P th then C1[?k th := ?h (?k th)] else C1)"
    if m: "th \<in> set (indices dimBlock)" and l: "length C1 = length C" for th C1
  proof -
    have th: "in_block dimBlock th" using m by (simp add: in_block_indices)
    then have xy: "dim_x th < 16" "dim_y th < 16" by (simp_all add: in_dimBlock)
    have Col: "global_index (dim_x bi) (dim_x dimBlock) (dim_x th) = int (?c th)"
      using grid_thread_coords[OF cols ext(2) b(1) xy(1)] by (simp add: dimBlock_def TILE_WIDTH_def)
    have Row: "global_index (dim_y bi) (dim_y dimBlock) (dim_y th) = int (?r th)"
      using grid_thread_coords[OF rows ext(1) b(2) xy(2)] by (simp add: dimBlock_def TILE_WIDTH_def)
    show ?thesis
    proof (cases "?P th")
      case True
      then have cp: "?c th < ?p" by linarith
      have inC: "0 \<le> int (?r th) * numCColumns d + int (?c th)"
          "int (?r th) * numCColumns d + int (?c th) < int (length C1)"
        using row_major_bound[of "int (?r th)" "numCRows d" "int (?c th)" "numCColumns d"] True
        unfolding l lenC by simp_all
      have idx: "nat (int (?r th) * numCColumns d + int (?c th)) = ?k th"
        using cols by (simp add: nat_add_distrib nat_mult_distrib)
      have "write_C d bi dimBlock st' th C1 = Inr (C1[?k th := Cvalues st' th])"
        unfolding write_C_def Let_def Col Row using True inC idx
        by (simp add: store_def del: of_nat_add of_nat_mult)
      then show ?thesis using True val[OF th True] cp by simp
    next
      case False
      have "write_C d bi dimBlock st' th C1 = Inr C1"
        unfolding write_C_def Let_def Col Row using False by auto
      then show ?thesis by (simp only: False if_False)
    qed
  qed
  obtain C' where w: "fold_err (write_C d bi dimBlock st') (indices dimBlock) C = Inr C'"
    and len: "length C' = length C"
    and cells: "\<forall>j<length C. C' ! j =
        (if \<exists>th\<in>set (indices dimBlock). ?P th \<and> ?k th = j then ?h j else C ! j)"
    using fold_err_updates[of "indices dimBlock" "length C" "write_C d bi dimBlock st'" ?P ?k ?h C,
        OF step] by blast
  have "tiled_block_step uninit A B d dimBlock bi C = Inr C'"
    using loop w by (simp add: tiled_block_step_def tiled_matrixMultiply_def)
  then show ?thesis using len cells by blast
qed

section \<open>The tiled kernel: the whole grid\<close>

lemma tiled_kernel_cells:
  fixes A B C :: "'a::semiring_0 list"
  assumes v: "valid_matrices A B C d" and n1: "1 \<le> numAColumns d"
    and rows: "1 \<le> numCRows d" and cols: "1 \<le> numCColumns d"
  shows "\<exists>C'. tiled_kernel uninit A B C d = Inr C' \<and> length C' = length C \<and>
           (\<forall>r c. int r < numCRows d \<longrightarrow> int c < numCColumns d \<longrightarrow>
              C' ! (r * nat (numCColumns d) + c) =
                reference_entry A B (nat (numAColumns d)) (nat (numBColumns d)) r c)"
proof -
  let ?g = "indices (tiled_dimGrid (numCRows d) (numCColumns d))"
  let ?p = "nat (numCColumns d)"
  let ?Q = "\<lambda>bi j. \<exists>th\<in>set (indices dimBlock).
               (int (dim_y bi * 16 + dim_y th) < numCRows d \<and>
                int (dim_x bi * 16 + dim_x th) < numCColumns d) \<and>
               (dim_y bi * 16 + dim_y th) * ?p + (dim_x bi * 16 + dim_x th) = j"
  let ?h = "\<lambda>j. reference_entry A B (nat (numAColumns d)) (nat (numBColumns d)) (j div ?p) (j mod ?p)"
  have ext: "numCRows d < 2 ^ 31" "numCColumns d < 2 ^ 31"
    and lenC: "int (length C) = numCRows d * numCColumns d"
    using v by (auto simp: valid_matrices_def extent_def)
  have step: "\<exists>C'. tiled_block_step uninit A B d dimBlock bi C1 = Inr C' \<and> length C' = length C \<and>
            (\<forall>j<length C. C' ! j = (if ?Q bi j then ?h j else C1 ! j))"
    if "bi \<in> set ?g" "length C1 = length C" for bi C1
    using tiled_block_valid[OF valid_matrices_length[OF v that(2)] n1 rows cols that(1), of uninit]
    unfolding that(2) .
  obtain C' where run: "fold_err (tiled_block_step uninit A B d dimBlock) ?g C = Inr C'"
    and len: "length C' = length C"
    and cells: "\<forall>j<length C. C' ! j = (if \<exists>bi\<in>set ?g. ?Q bi j then ?h j else C ! j)"
    using fold_err_cells[of ?g "length C" "tiled_block_step uninit A B d dimBlock" ?Q ?h C, OF step]
    by blast
  have "C' ! (r * ?p + c) = reference_entry A B (nat (numAColumns d)) (nat (numBColumns d)) r c"
    if r: "int r < numCRows d" and c: "int c < numCColumns d" for r c
  proof -
    have cp: "c < ?p" using c by linarith
    have "int (r * ?p + c) = int r * numCColumns d + int c" using cols by simp
    also have "\<dots> < numCRows d * numCColumns d"
      using row_major_bound(2)[of "int r" "numCRows d" "int c" "numCColumns d"] r c by simp
    finally have j: "r * ?p + c < length C" using lenC by linarith
    have b: "Dim3 (c div 16) (r div 16) 0 \<in> set ?g"
      using grid_covers(1)[OF rows ext(1) r] grid_covers(1)[OF cols ext(2) c]
      by (simp add: Dim3_in_indices tiled_dimGrid_def)
    have t: "Dim3 (c mod 16) (r mod 16) 0 \<in> set (indices dimBlock)"
      by (simp add: Dim3_in_indices dimBlock_def TILE_WIDTH_def)
    have "?Q (Dim3 (c div 16) (r div 16) 0) (r * ?p + c)"
      by (rule bexI[OF _ t]) (use r c in simp)
    then have "\<exists>bi\<in>set ?g. ?Q bi (r * ?p + c)" using b by blast
    then have "C' ! (r * ?p + c) = ?h (r * ?p + c)" using cells j by simp
    then show ?thesis using cp by simp
  qed
  then show ?thesis using run len unfolding tiled_kernel_def tiled_launch_def by blast
qed

lemma tiled_kernel_reference:
  fixes A B C :: "'a::semiring_0 list"
  assumes v: "valid_matrices A B C d" and n1: "1 \<le> numAColumns d"
    and rows: "1 \<le> numCRows d" and cols: "1 \<le> numCColumns d"
  shows "tiled_kernel uninit A B C d =
           Inr (reference_multiply A B (nat (numARows d)) (nat (numAColumns d)) (nat (numBColumns d)))"
proof -
  obtain C' where run: "tiled_kernel uninit A B C d = Inr C'" and len: "length C' = length C"
    and cells: "\<And>r c. int r < numCRows d \<Longrightarrow> int c < numCColumns d \<Longrightarrow>
              C' ! (r * nat (numCColumns d) + c) =
                reference_entry A B (nat (numAColumns d)) (nat (numBColumns d)) r c"
    using tiled_kernel_cells[OF v n1 rows cols, of uninit] by blast
  have eqs: "numCRows d = numARows d" "numCColumns d = numBColumns d"
    and lenC: "int (length C) = numCRows d * numCColumns d"
    using v by (auto simp: valid_matrices_def)
  have l2: "length C' = nat (numARows d) * nat (numBColumns d)"
    using len lenC rows cols unfolding eqs by (metis nat_int nat_mult_distrib zero_le_one order_trans)
  have "C' = reference_multiply A B (nat (numARows d)) (nat (numAColumns d)) (nat (numBColumns d))"
  proof (rule eq_reference_multiply[OF l2])
    fix r c assume "r < nat (numARows d)" "c < nat (numBColumns d)"
    then have "int r < numCRows d" "int c < numCColumns d" unfolding eqs by auto
    then show "C' ! (r * nat (numBColumns d) + c) =
        reference_entry A B (nat (numAColumns d)) (nat (numBColumns d)) r c"
      using cells[of r c] unfolding eqs by simp
  qed
  then show ?thesis using run by simp
qed

section \<open>The tiled kernel with a shared dimension of zero\<close>

lemma indices_first:
  assumes "0 < dim_x ext" "0 < dim_y ext" "0 < dim_z ext"
  shows "\<exists>ws. indices ext = Dim3 0 0 0 # ws"
proof -
  obtain xs where x: "[0..<dim_x ext] = 0 # xs" using assms(1) by (auto simp: upt_conv_Cons)
  obtain ys where y: "[0..<dim_y ext] = 0 # ys" using assms(2) by (auto simp: upt_conv_Cons)
  obtain zs where z: "[0..<dim_z ext] = 0 # zs" using assms(3) by (auto simp: upt_conv_Cons)
  show ?thesis unfolding indices_def x y z by simp
qed

lemma tile_count_pos_always: "0 < tile_count n"
proof -
  have "to_unsigned (n - 1) < 2 ^ 32"
    unfolding to_unsigned_def by (simp add: nat_less_iff)
  then have "to_unsigned (n - 1) div 16 + 1 < 2 ^ 32" by simp
  then show ?thesis by (simp add: tile_count_def unsigned_wrap_def TILE_WIDTH_def)
qed

lemma tile_coord_wrapped: "tile_coord 134217728 0 = - 2147483648"
  by (simp add: tile_coord_def to_unsigned_def unsigned_wrap_def to_int_def TILE_WIDTH_def)

text \<open>
  A shared dimension of zero: the bound of the tile loop is \<open>2 ^ 28\<close>. Up to tile
  \<open>2 ^ 27\<close> every load is padded with zero; at tile \<open>2 ^ 27\<close> the coordinate
  \<open>t * TILE_WIDTH + tx\<close>, stored in an \<open>int\<close>, is negative, passes the test against \<open>n\<close>, and
  thread \<open>(0, 0)\<close> of block \<open>(0, 0)\<close> reads \<open>A\<close> at a negative index.
\<close>

lemma zero_columns_loads:
  fixes A B :: "'a::semiring_0 list"
  assumes n: "numAColumns d = 0" and u: "u < 2 ^ 27" and th: "in_block dimBlock th"
  shows "thread_loads A B d bi dimBlock (int u) th = Inr (0, 0)"
proof -
  have xy: "dim_x th < 16" "dim_y th < 16" using th by (simp_all add: in_dimBlock)
  have kx: "u * 16 + dim_x th < 2 ^ 31" and ky: "u * 16 + dim_y th < 2 ^ 31"
    using u xy by simp_all
  show ?thesis
    by (simp add: thread_loads_def load_A_element_def load_B_element_def Let_def n
        tile_coord_small[OF kx] tile_coord_small[OF ky] del: of_nat_add of_nat_mult)
qed

lemma zero_columns_fault:
  fixes A B :: "'a::semiring_0 list"
  assumes n: "numAColumns d = 0" and rows: "1 \<le> numCRows d"
  shows "first_fault (thread_loads A B d (Dim3 0 0 0) dimBlock 134217728) (indices dimBlock) =
           Some (IllegalAddress BufA (- 2147483648))"
proof -
  obtain ws where w: "indices dimBlock = Dim3 0 0 0 # ws"
    using indices_first[of dimBlock] by (auto simp: dimBlock_def TILE_WIDTH_def)
  have "thread_loads A B d (Dim3 0 0 0) dimBlock 134217728 (Dim3 0 0 0) =
          Inl (IllegalAddress BufA (- 2147483648))"
    using rows
    by (simp add: thread_loads_def load_A_element_def Let_def n tile_coord_wrapped
        global_index_eval dimBlock_def TILE_WIDTH_def load_def)
  then show ?thesis unfolding w by simp
qed

lemma zero_columns_loop:
  fixes A B :: "'a::semiring_0 list"
  assumes n: "numAColumns d = 0" and rows: "1 \<le> numCRows d" and t: "t + m = 2 ^ 27"
  shows "tile_loop A B d (Dim3 0 0 0) dimBlock (int t) st = Inl (IllegalAddress BufA (- 2147483648))"
  using t
proof (induction m arbitrary: t st)
  case 0
  then have t: "int t = 134217728" by simp
  have guard: "to_unsigned 134217728 < tile_count (numAColumns d)"
    by (simp add: n tile_count_zero to_unsigned_def)
  show ?case
    unfolding t
    by (subst tile_loop.simps)
      (simp only: guard if_True load_tiles_Inl[OF zero_columns_fault[OF n rows]] sum.case)
next
  case (Suc m)
  then have lt: "t < 2 ^ 27" by simp
  then have guard: "to_unsigned (int t) < tile_count (numAColumns d)"
    by (simp add: n tile_count_zero to_unsigned_int)
  have ff: "first_fault (thread_loads A B d (Dim3 0 0 0) dimBlock (int t)) (indices dimBlock) = None"
    unfolding first_fault_None
    using zero_columns_loads[OF n lt, of _ A B "Dim3 0 0 0"] by (auto simp: in_block_indices)
  obtain st1 where l: "load_tiles A B d (Dim3 0 0 0) dimBlock (int t) st = Inr st1"
    using one_tile[OF ff, of st] by blast
  let ?st2 = "syncthreads dimBlock (accumulate_tiles dimBlock (syncthreads dimBlock st1))"
  have "tile_loop A B d (Dim3 0 0 0) dimBlock (int t) st =
        tile_loop A B d (Dim3 0 0 0) dimBlock (int (Suc t)) ?st2"
    apply (subst tile_loop.simps)
    apply (simp only: guard if_True l sum.case)
    apply (simp add: add.commute)
    done
  also have "\<dots> = Inl (IllegalAddress BufA (- 2147483648))"
    using Suc.prems by (intro Suc.IH) simp
  finally show ?case .
qed

lemma zero_columns_kernel:
  fixes A B C :: "'a::semiring_0 list"
  assumes n: "numAColumns d = 0" and rows: "1 \<le> numCRows d"
  shows "tiled_kernel uninit A B C d = Inl (IllegalAddress BufA (- 2147483648))"
proof -
  have loop: "tile_loop A B d (Dim3 0 0 0) dimBlock 0 st = Inl (IllegalAddress BufA (- 2147483648))"
    for st
    using zero_columns_loop[OF n rows, of 0 "2 ^ 27" A B st] by simp
  have block: "tiled_block_step uninit A B d dimBlock (Dim3 0 0 0) C =
      Inl (IllegalAddress BufA (- 2147483648))"
    by (simp add: tiled_block_step_def tiled_matrixMultiply_def loop)
  obtain ws where w: "indices (tiled_dimGrid (numCRows d) (numCColumns d)) = Dim3 0 0 0 # ws"
    using indices_first[of "tiled_dimGrid (numCRows d) (numCColumns d)"]
    by (auto simp: tiled_dimGrid_def tile_count_pos_always)
  show ?thesis
    unfolding tiled_kernel_def tiled_launch_def w by (simp add: block)
qed

section \<open>The tiled kernel: what each thread does\<close>







section \<open>Products with the identity matrix\<close>

lemma reference_empty: "reference_multiply ([]::'a::semiring_0 list) [] (Suc 0) 0 (Suc 0) = [0]"
  by (simp add: reference_multiply_def reference_entry_def)





section \<open>The host program: its runs\<close>









section \<open>The claims\<close>

text \<open>
  Claim C6. For output dimensions \<open>rows \<ge> 1\<close> and \<open>columns \<ge> 1\<close> (values of a C
  \<open>int\<close>), the grid of each \<open>main\<close> has \<open>ceil(rows / TILE_WIDTH)\<close> blocks along the axis
  its kernel maps to rows and \<open>ceil(columns / TILE_WIDTH)\<close> blocks along the axis it maps to
  columns (the naive kernel takes the row from \<open>x\<close>, the tiled kernel from \<open>y\<close>), the block
  is \<open>TILE_WIDTH \<times> TILE_WIDTH\<close> with \<open>TILE_WIDTH = 16\<close>, every output coordinate
  \<open>(r, c)\<close> with \<open>r < rows\<close> and \<open>c < columns\<close> is the coordinate of some thread of some
  block of the grid, and the expression \<open>(n - 1) / TILE_WIDTH + 1\<close> is
  \<open>ceil(n / TILE_WIDTH)\<close>.
\<close>

theorem launch_geometry:
  assumes rows: "1 \<le> rows" "rows < 2 ^ 31" and cols: "1 \<le> columns" "columns < 2 ^ 31"
  shows "simple_dimGrid rows columns =
           Dim3 (nat \<lceil>real_of_int rows / real TILE_WIDTH\<rceil>)
                (nat \<lceil>real_of_int columns / real TILE_WIDTH\<rceil>) 1 \<and>
         tiled_dimGrid rows columns =
           Dim3 (nat \<lceil>real_of_int columns / real TILE_WIDTH\<rceil>)
                (nat \<lceil>real_of_int rows / real TILE_WIDTH\<rceil>) 1 \<and>
         dimBlock = Dim3 TILE_WIDTH TILE_WIDTH 1 \<and> TILE_WIDTH = 16 \<and>
         (\<forall>r c. int r < rows \<and> int c < columns \<longrightarrow>
            (\<exists>b t. b \<in> set (indices (simple_dimGrid rows columns)) \<and> t \<in> set (indices dimBlock) \<and>
               global_index (dim_x b) (dim_x dimBlock) (dim_x t) = int r \<and>
               global_index (dim_y b) (dim_y dimBlock) (dim_y t) = int c)) \<and>
         (\<forall>r c. int r < rows \<and> int c < columns \<longrightarrow>
            (\<exists>b t. b \<in> set (indices (tiled_dimGrid rows columns)) \<and> t \<in> set (indices dimBlock) \<and>
               global_index (dim_y b) (dim_y dimBlock) (dim_y t) = int r \<and>
               global_index (dim_x b) (dim_x dimBlock) (dim_x t) = int c)) \<and>
         int (tile_count rows) = \<lceil>real_of_int rows / real TILE_WIDTH\<rceil> \<and>
         int (tile_count columns) = \<lceil>real_of_int columns / real TILE_WIDTH\<rceil>"
proof -
  note cr = tile_count_ceiling[OF rows] and cc = tile_count_ceiling[OF cols]
  have g1: "simple_dimGrid rows columns =
           Dim3 (nat \<lceil>real_of_int rows / real TILE_WIDTH\<rceil>)
                (nat \<lceil>real_of_int columns / real TILE_WIDTH\<rceil>) 1"
    unfolding simple_dimGrid_def cr[symmetric] cc[symmetric] by simp
  have g2: "tiled_dimGrid rows columns =
           Dim3 (nat \<lceil>real_of_int columns / real TILE_WIDTH\<rceil>)
                (nat \<lceil>real_of_int rows / real TILE_WIDTH\<rceil>) 1"
    unfolding tiled_dimGrid_def cr[symmetric] cc[symmetric] by simp
  have cov: "\<exists>bi ti. bi < tile_count n \<and> ti < 16 \<and> global_index bi 16 ti = int r"
    if n: "1 \<le> n" "n < 2 ^ 31" and r: "int r < n" for n r
  proof (intro exI conjI)
    show "r div 16 < tile_count n" by (rule grid_covers(1)[OF n r])
    show "r mod 16 < 16" by simp
    show "global_index (r div 16) 16 (r mod 16) = int r"
      using grid_thread_coords[OF n grid_covers(1)[OF n r], of "r mod 16"] by simp
  qed
  have c1: "\<exists>b t. b \<in> set (indices (simple_dimGrid rows columns)) \<and> t \<in> set (indices dimBlock) \<and>
               global_index (dim_x b) (dim_x dimBlock) (dim_x t) = int r \<and>
               global_index (dim_y b) (dim_y dimBlock) (dim_y t) = int c"
    if rr: "int r < rows" and rc: "int c < columns" for r c
  proof -
    obtain bx tx where x: "bx < tile_count rows" "tx < 16" "global_index bx 16 tx = int r"
      using cov[OF rows rr] by blast
    obtain by' ty where y: "by' < tile_count columns" "ty < 16" "global_index by' 16 ty = int c"
      using cov[OF cols rc] by blast
    show ?thesis
      apply (rule exI[of _ "Dim3 bx by' 0"])
      apply (rule exI[of _ "Dim3 tx ty 0"])
      using x y by (simp add: Dim3_in_indices simple_dimGrid_def dimBlock_def TILE_WIDTH_def)
  qed
  have c2: "\<exists>b t. b \<in> set (indices (tiled_dimGrid rows columns)) \<and> t \<in> set (indices dimBlock) \<and>
               global_index (dim_y b) (dim_y dimBlock) (dim_y t) = int r \<and>
               global_index (dim_x b) (dim_x dimBlock) (dim_x t) = int c"
    if rr: "int r < rows" and rc: "int c < columns" for r c
  proof -
    obtain by' ty where y: "by' < tile_count rows" "ty < 16" "global_index by' 16 ty = int r"
      using cov[OF rows rr] by blast
    obtain bx tx where x: "bx < tile_count columns" "tx < 16" "global_index bx 16 tx = int c"
      using cov[OF cols rc] by blast
    show ?thesis
      apply (rule exI[of _ "Dim3 bx by' 0"])
      apply (rule exI[of _ "Dim3 tx ty 0"])
      using x y by (simp add: Dim3_in_indices tiled_dimGrid_def dimBlock_def TILE_WIDTH_def)
  qed
  have blk: "dimBlock = Dim3 TILE_WIDTH TILE_WIDTH 1" by (rule dimBlock_def)
  have tw: "TILE_WIDTH = 16" by (rule TILE_WIDTH_def)
  show ?thesis
    by (intro conjI allI impI; (elim conjE)?) (rule g1 g2 blk tw cr cc c1 c2; assumption)+
qed

text \<open>The geometry for a \<open>17 \<times> 23\<close> output: two blocks along each axis.\<close>

theorem launch_geometry_witness:
  "(1::int) \<le> 17 \<and> (17::int) < 2 ^ 31 \<and> (1::int) \<le> 23 \<and> (23::int) < 2 ^ 31 \<and>
   simple_dimGrid 17 23 = Dim3 2 2 1 \<and> tiled_dimGrid 17 23 = Dim3 2 2 1 \<and>
   tile_count 17 = 2 \<and> tile_count 16 = 1 \<and> tile_count 1 = 1"
proof -
  have h: "(1::int) \<le> 17" "(17::int) < 2 ^ 31" "(1::int) \<le> 23" "(23::int) < 2 ^ 31" by simp_all
  have t: "tile_count 17 = 2" "tile_count 23 = 2" "tile_count 16 = 1" "tile_count 1 = 1"
    by (simp_all add: tile_count_def to_unsigned_def unsigned_wrap_def TILE_WIDTH_def)
  from launch_geometry[OF h] have "tiled_dimGrid 17 23 = Dim3 (nat \<lceil>real_of_int 23 / real TILE_WIDTH\<rceil>)
                (nat \<lceil>real_of_int 17 / real TILE_WIDTH\<rceil>) 1" by blast
  then have "tiled_dimGrid 17 23 = Dim3 2 2 1" by (simp add: TILE_WIDTH_def)
  then show ?thesis using h t by (simp add: simple_dimGrid_def)
qed













text \<open>
  Claim C1: for every pair of matrices with \<open>A.columns = B.rows\<close> the tiled and the naive
  kernel write the same value at every in-bounds output coordinate. The tiled kernel breaks
  this for a shared dimension of zero. For a \<open>1 \<times> 0\<close> matrix times a \<open>0 \<times> 1\<close> matrix the
  output has the one coordinate \<open>(0, 0)\<close>; the naive kernel writes the empty sum \<open>0\<close> there,
  while the bound \<open>(n - 1) / TILE_WIDTH + 1\<close> of the tile loop, computed in \<open>unsigned\<close>
  arithmetic, is \<open>2 ^ 28\<close>, and at tile \<open>2 ^ 27\<close> the tiled kernel reads \<open>A\<close> at index
  \<open>-2147483648\<close> and writes nothing.
\<close>

theorem tiled_naive_zero_columns:
  "numAColumns \<lparr>numARows = 1, numAColumns = 0, numBRows = 0, numBColumns = 1,
                 numCRows = 1, numCColumns = 1\<rparr> =
   numBRows \<lparr>numARows = 1, numAColumns = 0, numBRows = 0, numBColumns = 1,
              numCRows = 1, numCColumns = 1\<rparr> \<and>
   valid_matrices [] [] [5::int]
     \<lparr>numARows = 1, numAColumns = 0, numBRows = 0, numBColumns = 1,
      numCRows = 1, numCColumns = 1\<rparr> \<and>
   simple_kernel [] [] [5::int]
     \<lparr>numARows = 1, numAColumns = 0, numBRows = 0, numBColumns = 1,
      numCRows = 1, numCColumns = 1\<rparr> = Inr [0] \<and>
   tiled_kernel cleared [] [] [5::int]
     \<lparr>numARows = 1, numAColumns = 0, numBRows = 0, numBColumns = 1,
      numCRows = 1, numCColumns = 1\<rparr> = Inl (IllegalAddress BufA (- 2147483648))"
proof -
  let ?d = "\<lparr>numARows = 1, numAColumns = 0, numBRows = 0, numBColumns = 1,
      numCRows = 1, numCColumns = 1\<rparr>"
  have v: "valid_matrices [] [] [5::int] ?d"
    by (simp add: valid_matrices_def extent_def)
  have s: "simple_kernel [] [] [5::int] ?d = Inr [0]"
    using simple_kernel_reference[OF v] by (simp add: reference_empty)
  have t: "tiled_kernel cleared [] [] [5::int] ?d = Inl (IllegalAddress BufA (- 2147483648))"
    by (rule zero_columns_kernel) simp_all
  show ?thesis using v s t by simp
qed

text \<open>
  With a shared dimension of at least 1 the two kernels agree. For every pair of valid
  matrices with \<open>A.columns = B.rows \<ge> 1\<close> and every in-bounds output coordinate \<open>(r, c)\<close>,
  the tiled and the naive kernel, each launched as its \<open>main\<close> launches it, both complete,
  and the value of \<open>C[r, c]\<close> after the tiled kernel is the value after the naive kernel; the
  two output buffers are equal (exact arithmetic, whatever the shared memory held before).
\<close>

theorem tiled_equals_naive:
  fixes A B C :: "'a::semiring_0 list"
  assumes v: "valid_matrices A B C d" and n1: "1 \<le> numAColumns d"
    and r: "int r < numCRows d" and c: "int c < numCColumns d"
  shows "\<exists>C1 C2. tiled_kernel uninit A B C d = Inr C1 \<and> simple_kernel A B C d = Inr C2 \<and>
           entry C1 (nat (numCColumns d)) r c = entry C2 (nat (numCColumns d)) r c \<and> C1 = C2"
proof -
  have rows: "1 \<le> numCRows d" and cols: "1 \<le> numCColumns d" using r c by auto
  show ?thesis
    using tiled_kernel_reference[OF v n1 rows cols, of uninit] simple_kernel_reference[OF v rows cols]
    by simp
qed

text \<open>The scenario of the specification, under both kernels.\<close>

theorem tiled_equals_naive_example:
  "valid_matrices [1, 2, 3, 4] [5, 6, 7, 8] [0, 0, 0, 0::int]
     \<lparr>numARows = 2, numAColumns = 2, numBRows = 2, numBColumns = 2,
      numCRows = 2, numCColumns = 2\<rparr> \<and>
   tiled_kernel cleared [1, 2, 3, 4] [5, 6, 7, 8] [0, 0, 0, 0::int]
     \<lparr>numARows = 2, numAColumns = 2, numBRows = 2, numBColumns = 2,
      numCRows = 2, numCColumns = 2\<rparr> =
   simple_kernel [1, 2, 3, 4] [5, 6, 7, 8] [0, 0, 0, 0::int]
     \<lparr>numARows = 2, numAColumns = 2, numBRows = 2, numBColumns = 2,
      numCRows = 2, numCColumns = 2\<rparr>"
proof -
  let ?d = "\<lparr>numARows = 2, numAColumns = 2, numBRows = 2, numBColumns = 2,
      numCRows = 2, numCColumns = 2\<rparr>"
  have v: "valid_matrices [1, 2, 3, 4] [5, 6, 7, 8] [0, 0, 0, 0::int] ?d"
    by (simp add: valid_matrices_def extent_def)
  have h: "1 \<le> numAColumns ?d" "int 1 < numCRows ?d" "int 1 < numCColumns ?d" by simp_all
  from tiled_equals_naive[OF v h, of cleared] v show ?thesis by auto
qed

text \<open>
  Claim C3: for valid matrices with a dimension that is not a multiple of 16 every tile load
  stores the operand element when both coordinates are in bounds and zero otherwise, and
  the tiled kernel produces the product. The tiled kernel breaks this for a shared dimension
  of zero. For a \<open>17 \<times> 0\<close> matrix times a \<open>0 \<times> 1\<close> matrix (17 rows, not a multiple of 16) the
  loop reaches tile \<open>2 ^ 27\<close>, whose coordinate \<open>t * TILE_WIDTH + tx\<close> is \<open>-2147483648\<close> as an
  \<open>int\<close>: it is out of bounds, yet it passes the test \<open>A_x_coord < n\<close>, and the load reads \<open>A\<close>
  there instead of storing zero; the kernel produces no product.
\<close>

theorem zero_padding_zero_columns:
  "valid_matrices [] [] (replicate 17 (1::int))
     \<lparr>numARows = 17, numAColumns = 0, numBRows = 0, numBColumns = 1,
      numCRows = 17, numCColumns = 1\<rparr> \<and>
   \<not> 16 dvd numARows \<lparr>numARows = 17, numAColumns = 0, numBRows = 0, numBColumns = 1,
                        numCRows = 17, numCColumns = 1\<rparr> \<and>
   to_unsigned 134217728 <
     tile_count (numAColumns \<lparr>numARows = 17, numAColumns = 0, numBRows = 0, numBColumns = 1,
                              numCRows = 17, numCColumns = 1\<rparr>) \<and>
   tile_coord 134217728 0 = - 2147483648 \<and>
   load_A_element ([]::int list)
     \<lparr>numARows = 17, numAColumns = 0, numBRows = 0, numBColumns = 1,
      numCRows = 17, numCColumns = 1\<rparr> 0 134217728 0 =
     Inl (IllegalAddress BufA (- 2147483648)) \<and>
   tiled_kernel cleared [] [] (replicate 17 (1::int))
     \<lparr>numARows = 17, numAColumns = 0, numBRows = 0, numBColumns = 1,
      numCRows = 17, numCColumns = 1\<rparr> = Inl (IllegalAddress BufA (- 2147483648))"
proof -
  let ?d = "\<lparr>numARows = 17, numAColumns = 0, numBRows = 0, numBColumns = 1,
      numCRows = 17, numCColumns = 1\<rparr>"
  have v: "valid_matrices [] [] (replicate 17 (1::int)) ?d"
    by (simp add: valid_matrices_def extent_def)
  have g: "to_unsigned 134217728 < tile_count (numAColumns ?d)"
    by (simp add: tile_count_zero to_unsigned_def)
  have l: "load_A_element ([]::int list) ?d 0 134217728 0 = Inl (IllegalAddress BufA (- 2147483648))"
    by (simp add: load_A_element_def Let_def tile_coord_wrapped load_def)
  have t: "tiled_kernel cleared [] [] (replicate 17 (1::int)) ?d =
      Inl (IllegalAddress BufA (- 2147483648))"
    by (rule zero_columns_kernel) simp_all
  show ?thesis using v g l t by (simp add: tile_coord_wrapped)
qed

text \<open>
  With a shared dimension of at least 1 the zero padding is as intended. For every pair of
  valid matrices with a shared dimension of at least 1, whether or not the rows, the columns
  or the shared dimension are multiples of 16: in every tile of the loop a load stores the
  operand element when both coordinates are in bounds and zero otherwise (for every row and
  column, also those beyond the output); the padded sum over all tiles is the sum over the
  shared dimension; and the tiled kernel completes with the reference product, \<open>C[row, col]\<close>
  being the sum over \<open>k\<close> of \<open>A[row, k] * B[k, col]\<close>.
\<close>

theorem tiled_kernel_correct:
  fixes A B C :: "'a::semiring_0 list"
  assumes v: "valid_matrices A B C d" and n1: "1 \<le> numAColumns d"
    and r: "int row < numCRows d" and c: "int col < numCColumns d"
  shows "(\<forall>t i r'. t < tile_count (numAColumns d) \<and> i < TILE_WIDTH \<longrightarrow>
            load_A_element A d (int r') (int t) i = Inr (padded_A A d r' (t * TILE_WIDTH + i))) \<and>
         (\<forall>t i c'. t < tile_count (numAColumns d) \<and> i < TILE_WIDTH \<longrightarrow>
            load_B_element B d (int c') (int t) i = Inr (padded_B B d (t * TILE_WIDTH + i) c')) \<and>
         (\<Sum>k<tile_count (numAColumns d) * TILE_WIDTH. padded_A A d row k * padded_B B d k col) =
           (\<Sum>k<nat (numAColumns d). entry A (nat (numAColumns d)) row k *
                                     entry B (nat (numBColumns d)) k col) \<and>
         (\<exists>C'. tiled_kernel uninit A B C d = Inr C' \<and>
            C' = reference_multiply A B (nat (numARows d)) (nat (numAColumns d)) (nat (numBColumns d)) \<and>
            entry C' (nat (numCColumns d)) row col =
              (\<Sum>k<nat (numAColumns d). entry A (nat (numAColumns d)) row k *
                                        entry B (nat (numBColumns d)) k col))"
proof (intro conjI allI impI)
  have ext: "numAColumns d < 2 ^ 31" and n0: "0 \<le> numAColumns d"
    using v by (auto simp: valid_matrices_def extent_def)
  have rows: "1 \<le> numCRows d" and cols: "1 \<le> numCColumns d" using r c by auto
  have eqs: "numCRows d = numARows d" "numCColumns d = numBColumns d"
    using v by (auto simp: valid_matrices_def)
  show "load_A_element A d (int r') (int t) i = Inr (padded_A A d r' (t * TILE_WIDTH + i))"
    if "t < tile_count (numAColumns d) \<and> i < TILE_WIDTH" for t i r'
  proof -
    have "t * 16 + i < 2 ^ 31"
      using that by (intro tile_index_small[OF n1 ext]) (simp_all add: TILE_WIDTH_def)
    then show ?thesis
      using load_A_element_valid[OF v, of t i r']
      by (simp add: padded_A_def entry_def TILE_WIDTH_def)
  qed
  show "load_B_element B d (int c') (int t) i = Inr (padded_B B d (t * TILE_WIDTH + i) c')"
    if "t < tile_count (numAColumns d) \<and> i < TILE_WIDTH" for t i c'
  proof -
    have "t * 16 + i < 2 ^ 31"
      using that by (intro tile_index_small[OF n1 ext]) (simp_all add: TILE_WIDTH_def)
    then show ?thesis
      using load_B_element_valid[OF v, of t i c']
      by (simp add: padded_B_def entry_def TILE_WIDTH_def)
  qed
  show "(\<Sum>k<tile_count (numAColumns d) * TILE_WIDTH. padded_A A d row k * padded_B B d k col) =
           (\<Sum>k<nat (numAColumns d). entry A (nat (numAColumns d)) row k *
                                     entry B (nat (numBColumns d)) k col)"
    using padded_sum[OF r c _ n0, of "tile_count (numAColumns d) * TILE_WIDTH" A B]
      tiles_cover[OF n1 ext]
    by (simp add: TILE_WIDTH_def reference_entry_def)
  have rn: "row < nat (numARows d)" "col < nat (numBColumns d)" using r c unfolding eqs by auto
  have "entry (reference_multiply A B (nat (numARows d)) (nat (numAColumns d)) (nat (numBColumns d)))
          (nat (numCColumns d)) row col =
        reference_entry A B (nat (numAColumns d)) (nat (numBColumns d)) row col"
    unfolding entry_def eqs by (rule reference_multiply_nth[OF rn])
  then show "\<exists>C'. tiled_kernel uninit A B C d = Inr C' \<and>
            C' = reference_multiply A B (nat (numARows d)) (nat (numAColumns d)) (nat (numBColumns d)) \<and>
            entry C' (nat (numCColumns d)) row col =
              (\<Sum>k<nat (numAColumns d). entry A (nat (numAColumns d)) row k *
                                        entry B (nat (numBColumns d)) k col)"
    using tiled_kernel_reference[OF v n1 rows cols, of uninit] by (simp add: reference_entry_def)
qed

text \<open>The regression target of the specification: \<open>17 \<times> 19\<close> times \<open>19 \<times> 23\<close>.\<close>

theorem tiled_kernel_correct_example:
  "valid_matrices (replicate 323 1) (replicate 437 1) (replicate 391 (0::int))
     \<lparr>numARows = 17, numAColumns = 19, numBRows = 19, numBColumns = 23,
      numCRows = 17, numCColumns = 23\<rparr> \<and>
   \<not> 16 dvd (17::int) \<and> \<not> 16 dvd (19::int) \<and> \<not> 16 dvd (23::int) \<and>
   tiled_kernel cleared (replicate 323 1) (replicate 437 1) (replicate 391 (0::int))
     \<lparr>numARows = 17, numAColumns = 19, numBRows = 19, numBColumns = 23,
      numCRows = 17, numCColumns = 23\<rparr> =
     Inr (reference_multiply (replicate 323 1) (replicate 437 1) 17 19 23)"
proof -
  let ?d = "\<lparr>numARows = 17, numAColumns = 19, numBRows = 19, numBColumns = 23,
      numCRows = 17, numCColumns = 23\<rparr>"
  have v: "valid_matrices (replicate 323 1) (replicate 437 1) (replicate 391 (0::int)) ?d"
    by (simp add: valid_matrices_def extent_def)
  have h: "1 \<le> numAColumns ?d" "int 16 < numCRows ?d" "int 22 < numCColumns ?d" by simp_all
  from tiled_kernel_correct[OF v h, of cleared]
  have "\<exists>C'. tiled_kernel cleared (replicate 323 1) (replicate 437 1) (replicate 391 (0::int)) ?d =
          Inr C' \<and>
        C' = reference_multiply (replicate 323 1) (replicate 437 1) (nat (numARows ?d))
               (nat (numAColumns ?d)) (nat (numBColumns ?d))"
    by blast
  then show ?thesis using v by simp
qed





end
